theory Spec2Isabelle
  imports Complex_Main "HOL-Library.Sublist" "HOL-Library.Multiset"
    "HOL-Library.Char_ord" "HOL-Library.List_Lexorder" "HOL-Library.Option_ord"
begin

section \<open>Text normalizer (match\_listings\_to\_brands.py, norm and compact)\<close>

text \<open>
  Text is a list of code points. A \<^typ>\<open>char\<close> is a code point below 256; every code
  point outside ASCII reaches the normalizer only through the transliteration
  \<open>unidecode\<close>, which belongs to a library outside the repository and is a parameter
  of \<open>norm\<close>. A cell of a table read from CSV is a text or missing (NaN): a
  \<^typ>\<open>string option\<close>.
\<close>

definition is_space :: "char \<Rightarrow> bool" where
  \<comment> \<open>the class \<open>\s\<close> of a Python str pattern, which is also what \<open>str.strip()\<close> removes\<close>
  "is_space c =
     (let n = (of_char c :: nat)
      in (9 \<le> n \<and> n \<le> 13) \<or> (28 \<le> n \<and> n \<le> 32) \<or> n = 133 \<or> n = 160)"

definition is_lower_alnum :: "char \<Rightarrow> bool" where
  \<comment> \<open>the class \<open>[a-z0-9]\<close>\<close>
  "is_lower_alnum c =
     (let n = (of_char c :: nat)
      in (97 \<le> n \<and> n \<le> 122) \<or> (48 \<le> n \<and> n \<le> 57))"

definition lower_char :: "char \<Rightarrow> char" where
  \<comment> \<open>\<open>str.lower()\<close> on one code point below 256\<close>
  "lower_char c =
     (let n = (of_char c :: nat)
      in if (65 \<le> n \<and> n \<le> 90) \<or> (192 \<le> n \<and> n \<le> 222 \<and> n \<noteq> 215)
         then char_of (n + 32) else c)"

definition lower :: "string \<Rightarrow> string" where
  "lower s = map lower_char s"

text \<open>
  \<open>re.sub(cls+, " ", s)\<close>: every maximal run of characters of the class \<open>p\<close> becomes
  one space. The flag says that the previous character was in the class, so that the
  run has its space already.
\<close>

fun sub_runs :: "(char \<Rightarrow> bool) \<Rightarrow> bool \<Rightarrow> string \<Rightarrow> string" where
  "sub_runs p in_run [] = []"
| "sub_runs p in_run (c # cs) =
     (if p c then (if in_run then sub_runs p True cs else CHR '' '' # sub_runs p True cs)
      else c # sub_runs p False cs)"

definition re_sub :: "(char \<Rightarrow> bool) \<Rightarrow> string \<Rightarrow> string" where
  "re_sub p s = sub_runs p False s"

definition strip :: "string \<Rightarrow> string" where
  "strip s = rev (dropWhile is_space (rev (dropWhile is_space s)))"

definition norm :: "(string \<Rightarrow> string) \<Rightarrow> string option \<Rightarrow> string" where
  "norm unidecode s =
     (case s of
        None \<Rightarrow> []
      | Some t \<Rightarrow>
          (let s1 = lower (unidecode t);
               s2 = re_sub (\<lambda>c. \<not> (is_lower_alnum c \<or> is_space c)) s1;
               s3 = strip (re_sub is_space s2)
           in s3))"

definition compact :: "string \<Rightarrow> string" where
  \<comment> \<open>\<open>s.replace(" ", "") if s else s\<close>\<close>
  "compact s = (if s \<noteq> [] then filter (\<lambda>c. c \<noteq> CHR '' '') s else s)"

definition fillna :: "string option \<Rightarrow> string option" where
  \<comment> \<open>\<open>.fillna("")\<close> on one cell\<close>
  "fillna c = (case c of None \<Rightarrow> Some [] | Some t \<Rightarrow> Some t)"

section \<open>Brand keyspace builder (build\_brand\_keyspace)\<close>

record brand_row =
  brand :: "string option"
  key :: "string option"

record brand_key = brand_row +
  key_norm :: string
  key_compact :: string

text \<open>
  \<open>drop_duplicates(subset=["brand", "key_norm"])\<close> keeps a row unless an earlier row
  has the same pair; two missing brands count as the same value.
\<close>

fun drop_duplicates :: "(string option \<times> string) list \<Rightarrow> brand_key list \<Rightarrow> brand_key list" where
  "drop_duplicates seen [] = []"
| "drop_duplicates seen (r # rs) =
     (if (brand r, key_norm r) \<in> set seen then drop_duplicates seen rs
      else r # drop_duplicates ((brand r, key_norm r) # seen) rs)"

definition add_key_columns :: "(string \<Rightarrow> string) \<Rightarrow> brand_row \<Rightarrow> brand_key" where
  "add_key_columns unidecode r =
     (let kn = norm unidecode (fillna (key r))
      in \<lparr>brand = brand r, key = key r, key_norm = kn, key_compact = compact kn\<rparr>)"

definition build_brand_keyspace :: "(string \<Rightarrow> string) \<Rightarrow> brand_row list \<Rightarrow> brand_key list" where
  "build_brand_keyspace unidecode brands_df =
     (let out = map (add_key_columns unidecode) brands_df;
          out = filter (\<lambda>r. key_norm r \<noteq> [] \<and> brand r \<noteq> Some []) out
      in drop_duplicates [] out)"

section \<open>Similarity scorer and best-match selector\<close>

text \<open>
  The two similarity measures come from a library outside the repository; the record
  stands for its module \<open>fuzz\<close>. The library returns a float; the model takes a score
  as the rational number the float stands for, and nothing rounds it.
\<close>

record fuzz =
  partial_ratio :: "string \<Rightarrow> string \<Rightarrow> rat"
  token_set_ratio :: "string \<Rightarrow> string \<Rightarrow> rat"

definition score_listing_against_key :: "fuzz \<Rightarrow> string \<Rightarrow> string \<Rightarrow> string \<Rightarrow> string \<Rightarrow> rat" where
  "score_listing_against_key fz list_norm list_compact kn kc =
     (let s1 = partial_ratio fz list_norm kn;
          s2 = token_set_ratio fz list_norm kn;
          s3 = partial_ratio fz list_compact kc
      in max (max s1 s2) s3)"

text \<open>
  The running best is (brand, score, matched key). The brand is \<open>None\<close> until a
  candidate has won; the brand of a winning row may itself be a missing cell.
\<close>

type_synonym best = "string option option \<times> rat \<times> string option"

fun scan :: "fuzz \<Rightarrow> string \<Rightarrow> string \<Rightarrow> brand_key list \<Rightarrow> best \<Rightarrow> best" where
  "scan fz list_norm list_compact [] best = best"
| "scan fz list_norm list_compact (row # rows) best =
     (let sc = score_listing_against_key fz list_norm list_compact (key_norm row) (key_compact row)
      in scan fz list_norm list_compact rows
           (if sc > fst (snd best) then (Some (brand row), sc, Some (key_norm row)) else best))"

datatype error = KeyError | TypeError | ValueError

text \<open>
  The shortlist is selected by a mask: one mask per key column (\<open>.apply\<close> of the
  substring test), the two joined by \<open>|\<close>. On a keyspace with rows the masks are
  boolean and \<open>|\<close> joins them entry by entry. What \<open>|\<close> does with the two results of
  \<open>.apply\<close> on a keyspace with no rows is the table library's and not the same in all
  its versions: it returns the empty mask, or it raises. The record holds which; the
  source has no guard before it.
\<close>

record pandas =
  empty_mask_or :: "error option"

definition mask_or :: "pandas \<Rightarrow> bool list \<Rightarrow> bool list \<Rightarrow> error + bool list" where
  "mask_or pd a b =
     (if a = [] \<and> b = []
      then (case empty_mask_or pd of None \<Rightarrow> Inr [] | Some e \<Rightarrow> Inl e)
      else Inr (map2 (\<or>) a b))"

definition select_rows :: "'a list \<Rightarrow> bool list \<Rightarrow> 'a list" where
  \<comment> \<open>\<open>brand_keys[mask]\<close>\<close>
  "select_rows xs keep = map fst (filter snd (zip xs keep))"

definition best_brand :: "pandas \<Rightarrow> fuzz \<Rightarrow> string \<Rightarrow> string \<Rightarrow> brand_key list \<Rightarrow> error + best" where
  "best_brand pd fz list_norm list_compact brand_keys =
     (case mask_or pd (map (\<lambda>r. sublist (key_norm r) list_norm) brand_keys)
                      (map (\<lambda>r. sublist (key_compact r) list_compact) brand_keys) of
        Inl e \<Rightarrow> Inl e
      | Inr keep \<Rightarrow>
          (let sub = select_rows brand_keys keep;
               candidates = (if length sub \<noteq> 0 then sub else brand_keys)
           in Inr (scan fz list_norm list_compact candidates (None, 0, None))))"

text \<open>
  The matching loop of \<open>main\<close>: three output columns, one append to each per listing.
  An error of \<open>best_brand\<close> ends the run; nothing has been written by then.
\<close>

record match_cols =
  matched_brand :: "string option list"
  match_score :: "rat list"
  matched_key :: "string option list"

definition accepted :: "int \<Rightarrow> string option option \<Rightarrow> rat \<Rightarrow> bool" where
  \<comment> \<open>\<open>b is not None and sc >= args.threshold\<close>, the threshold an integer\<close>
  "accepted threshold b sc = (b \<noteq> None \<and> sc \<ge> of_int threshold)"

definition match_step ::
  "pandas \<Rightarrow> fuzz \<Rightarrow> int \<Rightarrow> brand_key list \<Rightarrow> match_cols \<Rightarrow> string \<times> string \<Rightarrow> error + match_cols" where
  "match_step pd fz threshold brand_keys acc l =
     (case best_brand pd fz (fst l) (snd l) brand_keys of
        Inl e \<Rightarrow> Inl e
      | Inr (b, sc, keyn) \<Rightarrow>
          if accepted threshold b sc
          then Inr \<lparr>matched_brand = matched_brand acc @ [the b],
                    match_score = match_score acc @ [sc],
                    matched_key = matched_key acc @ [keyn]\<rparr>
          else Inr \<lparr>matched_brand = matched_brand acc @ [Some ''no brand''],
                    match_score = match_score acc @ [sc],
                    matched_key = matched_key acc @ [keyn]\<rparr>)"

fun match_loop ::
  "pandas \<Rightarrow> fuzz \<Rightarrow> int \<Rightarrow> brand_key list \<Rightarrow> match_cols \<Rightarrow> (string \<times> string) list \<Rightarrow> error + match_cols" where
  "match_loop pd fz threshold brand_keys acc [] = Inr acc"
| "match_loop pd fz threshold brand_keys acc (l # ls) =
     (case match_step pd fz threshold brand_keys acc l of
        Inl e \<Rightarrow> Inl e
      | Inr acc' \<Rightarrow> match_loop pd fz threshold brand_keys acc' ls)"

definition match_listings ::
  "pandas \<Rightarrow> (string \<Rightarrow> string) \<Rightarrow> fuzz \<Rightarrow> int \<Rightarrow> brand_row list \<Rightarrow> string option list
     \<Rightarrow> error + match_cols" where
  "match_listings pd unidecode fz threshold brands listing_col =
     (let list_norm = map (\<lambda>c. norm unidecode (fillna c)) listing_col;
          list_compact = map compact list_norm;
          brand_keys = build_brand_keyspace unidecode brands
      in match_loop pd fz threshold brand_keys
           \<lparr>matched_brand = [], match_score = [], matched_key = []\<rparr>
           (zip list_norm list_compact))"

section \<open>Aggregator (aggregate\_country\_basic.py)\<close>

text \<open>
  A cell of the matched table is missing, a text or a number. A row lists its cells by
  column name. Parsing a text as a number, and grouping with its sums, counts and means,
  are the table library's and are parameters.
\<close>

datatype 'n cell = NaN | Text string | Number 'n

record 'n frame =
  columns :: "string list"
  rows :: "(string \<times> 'n cell) list list"

record agg_args =
  brand_col :: string
  shop_col :: string
  price_col :: string
  units_col :: string

record 'n pandas_agg =
  to_numeric :: "string \<Rightarrow> 'n option"
  summarise :: "string list \<Rightarrow> (string \<times> string \<times> string) list \<Rightarrow> 'n frame \<Rightarrow> error + 'n frame"

record 'n outputs =
  brand_summary :: "'n frame"
  shop_brand :: "'n frame option"
  unmatched :: "'n frame"

definition cell_at :: "(string \<times> 'n cell) list \<Rightarrow> string \<Rightarrow> 'n cell" where
  "cell_at r c = (case map_of r c of Some v \<Rightarrow> v | None \<Rightarrow> NaN)"

definition coerce_cell :: "'n pandas_agg \<Rightarrow> 'n cell \<Rightarrow> 'n cell" where
  \<comment> \<open>\<open>pd.to_numeric(..., errors="coerce")\<close> on one cell\<close>
  "coerce_cell lib v =
     (case v of
        Text t \<Rightarrow> (case to_numeric lib t of Some n \<Rightarrow> Number n | None \<Rightarrow> NaN)
      | _ \<Rightarrow> v)"

definition coerce_row :: "'n pandas_agg \<Rightarrow> string \<Rightarrow> (string \<times> 'n cell) list \<Rightarrow> (string \<times> 'n cell) list" where
  "coerce_row lib c r = map (\<lambda>kv. if fst kv = c then (fst kv, coerce_cell lib (snd kv)) else kv) r"

definition coerce_column :: "'n pandas_agg \<Rightarrow> string \<Rightarrow> 'n frame \<Rightarrow> 'n frame" where
  \<comment> \<open>\<open>if c in df.columns: df[c] = pd.to_numeric(df[c], errors="coerce")\<close>\<close>
  "coerce_column lib c df =
     (if c \<in> set (columns df) then df\<lparr>rows := map (coerce_row lib c) (rows df)\<rparr> else df)"

fun number_or_zero :: "('n::zero) cell \<Rightarrow> 'n" where
  \<comment> \<open>\<open>.fillna(0)\<close> on a cell of a coerced column, which is a number or missing\<close>
  "number_or_zero (Number n) = n"
| "number_or_zero _ = 0"

definition revenue_row :: "string \<Rightarrow> string \<Rightarrow> (string \<times> ('n::linordered_idom) cell) list \<Rightarrow> (string \<times> 'n cell) list" where
  "revenue_row pcol ucol r =
     r @ [(''Revenue (USD)'', Number (number_or_zero (cell_at r pcol) * number_or_zero (cell_at r ucol)))]"

definition add_revenue :: "string \<Rightarrow> string \<Rightarrow> ('n::linordered_idom) frame \<Rightarrow> 'n frame" where
  "add_revenue pcol ucol df =
     (if ''Revenue (USD)'' \<notin> set (columns df) \<and> pcol \<in> set (columns df) \<and> ucol \<in> set (columns df)
      then df\<lparr>columns := columns df @ [''Revenue (USD)''],
              rows := map (revenue_row pcol ucol) (rows df)\<rparr>
      else df)"

definition prepare_frame :: "('n::linordered_idom) pandas_agg \<Rightarrow> agg_args \<Rightarrow> 'n frame \<Rightarrow> 'n frame" where
  "prepare_frame lib args df =
     add_revenue (price_col args) (units_col args)
       (coerce_column lib ''Revenue (USD)''
          (coerce_column lib (units_col args)
             (coerce_column lib (price_col args) df)))"

text \<open>
  \<open>groupby(keys).agg(...)\<close> with named aggregations (result column, source column,
  function), \<open>reset_index\<close> and the sort by revenue. A key or a source column that the
  table lacks is a KeyError; the rest is the library's.
\<close>

definition group_summary ::
  "'n pandas_agg \<Rightarrow> string list \<Rightarrow> (string \<times> string \<times> string) list \<Rightarrow> 'n frame \<Rightarrow> error + 'n frame" where
  "group_summary lib keys named df =
     (if list_all (\<lambda>c. c \<in> set (columns df)) (keys @ map (\<lambda>a. fst (snd a)) named)
      then summarise lib keys named df
      else Inl KeyError)"

definition select_columns :: "string list \<Rightarrow> 'n frame \<Rightarrow> 'n frame" where
  \<comment> \<open>\<open>um[keep_cols]\<close>\<close>
  "select_columns cols df =
     \<lparr>columns = cols, rows = map (\<lambda>r. map (\<lambda>c. (c, cell_at r c)) cols) (rows df)\<rparr>"

fun number_key :: "'n cell \<Rightarrow> 'n option" where
  "number_key (Number n) = Some n"
| "number_key _ = None"

fun text_key :: "'n cell \<Rightarrow> string option" where
  "text_key (Text t) = Some t"
| "text_key _ = None"

text \<open>
  \<open>sort_values(col, ascending=False, na_position="last")\<close>: the rows with a value
  in descending order, rows of equal value in their order, then the rows where it is
  missing. A label that names two columns is a ValueError. Numbers and texts do not
  compare with each other.
\<close>

definition sort_values_desc :: "string \<Rightarrow> ('n::linorder) frame \<Rightarrow> error + 'n frame" where
  "sort_values_desc col df =
     (let present = filter (\<lambda>r. cell_at r col \<noteq> NaN) (rows df);
          missing = filter (\<lambda>r. cell_at r col = NaN) (rows df)
      in if count_list (columns df) col > 1 then Inl ValueError
         else if list_all (\<lambda>r. number_key (cell_at r col) \<noteq> None) present
         then Inr (df\<lparr>rows := rev (sort_key (\<lambda>r. number_key (cell_at r col)) (rev present)) @ missing\<rparr>)
         else if list_all (\<lambda>r. text_key (cell_at r col) \<noteq> None) present
         then Inr (df\<lparr>rows := rev (sort_key (\<lambda>r. text_key (cell_at r col)) (rev present)) @ missing\<rparr>)
         else Inl TypeError)"

definition keep_cols :: "string \<Rightarrow> string \<Rightarrow> string list \<Rightarrow> string list" where
  \<comment> \<open>the useful columns, those of them that the table has\<close>
  "keep_cols ucol pcol cols =
     filter (\<lambda>c. c \<in> set cols)
       [''Shop'', ''Listing'', ''Listing (Cleaned)'', ucol, pcol, ''Match Score'']"

definition unmatched_extract ::
  "string \<Rightarrow> string \<Rightarrow> string \<Rightarrow> ('n::linorder) frame \<Rightarrow> error + 'n frame" where
  "unmatched_extract bcol ucol pcol df =
     (if bcol \<notin> set (columns df) then Inl KeyError
      else
        (let um = df\<lparr>rows := filter (\<lambda>r. cell_at r bcol = Text ''no brand'') (rows df)\<rparr>;
             keep = keep_cols ucol pcol (columns um);
             um = (if keep \<noteq> [] then select_columns keep um else um)
         in if ''Match Score'' \<in> set (columns um)
            then sort_values_desc ''Match Score'' um else Inr um))"

text \<open>
  \<open>main\<close> of the aggregator on the table read from the matched CSV: the coercions,
  the revenue column, the brand summary, the shop by brand summary when the table has
  the shop column, then the extract. An error ends the run at its step.
\<close>

definition aggregate :: "('n::linordered_idom) pandas_agg \<Rightarrow> agg_args \<Rightarrow> 'n frame \<Rightarrow> error + 'n outputs" where
  "aggregate lib args df0 =
     (let df = prepare_frame lib args df0;
          has_listing = (''Listing'' \<in> set (columns df))
      in case group_summary lib [brand_col args]
                [(''listings'', if has_listing then ''Listing'' else ''Brand (Matched)'', ''count''),
                 (''units'', units_col args, ''sum''),
                 (''revenue'', ''Revenue (USD)'', ''sum''),
                 (''avg_price'', price_col args, ''mean'')] df of
           Inl e \<Rightarrow> Inl e
         | Inr brand_grp \<Rightarrow>
             (case (if shop_col args \<in> set (columns df)
                    then (case group_summary lib [shop_col args, brand_col args]
                                 [(''listings'', if has_listing then ''Listing'' else brand_col args, ''count''),
                                  (''units'', units_col args, ''sum''),
                                  (''revenue'', ''Revenue (USD)'', ''sum'')] df of
                            Inl e \<Rightarrow> Inl e
                          | Inr s \<Rightarrow> Inr (Some s))
                    else Inr None) of
                Inl e \<Rightarrow> Inl e
              | Inr shop_grp \<Rightarrow>
                  (case unmatched_extract (brand_col args) (units_col args) (price_col args) df of
                     Inl e \<Rightarrow> Inl e
                   | Inr um \<Rightarrow>
                       Inr \<lparr>brand_summary = brand_grp, shop_brand = shop_grp, unmatched = um\<rparr>)))"

section \<open>Contracts of the libraries and reference definitions\<close>

text \<open>
  What the development assumes of the two text libraries, as predicates on the
  parameters: the transliteration returns a text of ASCII code points unchanged; the
  similarity measures range over 0..100; the partial ratio of a text and a non-empty
  key that occurs in it is 100.
\<close>

definition is_ascii :: "char \<Rightarrow> bool" where
  "is_ascii c = ((of_char c :: nat) < 128)"

definition ascii_fixed :: "(string \<Rightarrow> string) \<Rightarrow> bool" where
  "ascii_fixed unidecode = (\<forall>s. list_all is_ascii s \<longrightarrow> unidecode s = s)"

definition fuzz_bounded :: "fuzz \<Rightarrow> bool" where
  "fuzz_bounded fz =
     (\<forall>a b. 0 \<le> partial_ratio fz a b \<and> partial_ratio fz a b \<le> 100
          \<and> 0 \<le> token_set_ratio fz a b \<and> token_set_ratio fz a b \<le> 100)"

definition fuzz_contained :: "fuzz \<Rightarrow> bool" where
  "fuzz_contained fz = (\<forall>s k. k \<noteq> [] \<and> sublist k s \<longrightarrow> partial_ratio fz s k = 100)"

text \<open>The best match by a scan of the whole keyspace, with no shortlist.\<close>

definition best_brand_full_scan :: "fuzz \<Rightarrow> string \<Rightarrow> string \<Rightarrow> brand_key list \<Rightarrow> best" where
  "best_brand_full_scan fz list_norm list_compact brand_keys =
     scan fz list_norm list_compact brand_keys (None, 0, None)"

text \<open>
  The shortlist of a listing: the keys whose normalized form occurs in the normalized
  listing or whose compact form occurs in the compact listing. The candidates are the
  shortlist, or the whole keyspace when the shortlist is empty. Then the score of a row,
  the best score found over the candidates (0 when none is above 0), the first candidate
  that has it, and the best match over the candidates.
\<close>

definition shortlist :: "string \<Rightarrow> string \<Rightarrow> brand_key list \<Rightarrow> brand_key list" where
  "shortlist list_norm list_compact brand_keys =
     filter (\<lambda>r. sublist (key_norm r) list_norm \<or> sublist (key_compact r) list_compact) brand_keys"

definition candidates_of :: "string \<Rightarrow> string \<Rightarrow> brand_key list \<Rightarrow> brand_key list" where
  "candidates_of list_norm list_compact brand_keys =
     (if shortlist list_norm list_compact brand_keys = [] then brand_keys
      else shortlist list_norm list_compact brand_keys)"

definition row_score :: "fuzz \<Rightarrow> string \<Rightarrow> string \<Rightarrow> brand_key \<Rightarrow> rat" where
  "row_score fz list_norm list_compact r =
     score_listing_against_key fz list_norm list_compact (key_norm r) (key_compact r)"

definition best_score :: "fuzz \<Rightarrow> string \<Rightarrow> string \<Rightarrow> brand_key list \<Rightarrow> rat" where
  "best_score fz list_norm list_compact cands =
     Max (insert 0 (set (map (row_score fz list_norm list_compact) cands)))"

definition best_candidate :: "fuzz \<Rightarrow> string \<Rightarrow> string \<Rightarrow> brand_key list \<Rightarrow> brand_key option" where
  "best_candidate fz list_norm list_compact cands =
     (if best_score fz list_norm list_compact cands > 0
      then find (\<lambda>r. row_score fz list_norm list_compact r = best_score fz list_norm list_compact cands) cands
      else None)"

definition best_match :: "fuzz \<Rightarrow> string \<Rightarrow> string \<Rightarrow> brand_key list \<Rightarrow> best" where
  "best_match fz list_norm list_compact brand_keys =
     scan fz list_norm list_compact (candidates_of list_norm list_compact brand_keys) (None, 0, None)"

text \<open>A listing is matched when its best match is accepted; otherwise it is unmatched.\<close>

definition is_matched :: "pandas \<Rightarrow> fuzz \<Rightarrow> int \<Rightarrow> brand_key list \<Rightarrow> string \<times> string \<Rightarrow> bool" where
  "is_matched pd fz threshold brand_keys l =
     (case best_brand pd fz (fst l) (snd l) brand_keys of
        Inl e \<Rightarrow> False
      | Inr (b, sc, keyn) \<Rightarrow> accepted threshold b sc)"

text \<open>
  The rows that can enter the keyspace: the input rows with their key columns, in input
  order, without those whose normalized key is empty or whose brand is the empty text.
  The pair of a row is what duplicates are judged on.
\<close>

definition valid_rows :: "(string \<Rightarrow> string) \<Rightarrow> brand_row list \<Rightarrow> brand_key list" where
  "valid_rows unidecode brands_df =
     filter (\<lambda>r. key_norm r \<noteq> [] \<and> brand r \<noteq> Some []) (map (add_key_columns unidecode) brands_df)"

definition pair_of :: "brand_key \<Rightarrow> string option \<times> string" where
  "pair_of r = (brand r, key_norm r)"

text \<open>The prepared texts of the listing column, as \<open>main\<close> derives them.\<close>

definition prepare :: "(string \<Rightarrow> string) \<Rightarrow> string option list \<Rightarrow> (string \<times> string) list" where
  "prepare unidecode listing_col =
     map (\<lambda>c. (norm unidecode (fillna c), compact (norm unidecode (fillna c)))) listing_col"

text \<open>
  The rows of a table whose brand cell is the text \<open>no brand\<close>, what the extract keeps
  of a row, and a row as the aggregator has it once the numeric columns are coerced and
  the revenue column is there.
\<close>

definition no_brand_rows :: "string \<Rightarrow> 'n frame \<Rightarrow> (string \<times> 'n cell) list list" where
  "no_brand_rows bcol df = filter (\<lambda>r. cell_at r bcol = Text ''no brand'') (rows df)"

definition review_row ::
  "string \<Rightarrow> string \<Rightarrow> 'n frame \<Rightarrow> (string \<times> 'n cell) list \<Rightarrow> (string \<times> 'n cell) list" where
  "review_row ucol pcol df r =
     (if keep_cols ucol pcol (columns df) = [] then r
      else map (\<lambda>c. (c, cell_at r c)) (keep_cols ucol pcol (columns df)))"

definition prepare_row ::
  "('n::linordered_idom) pandas_agg \<Rightarrow> agg_args \<Rightarrow> 'n frame \<Rightarrow> (string \<times> 'n cell) list \<Rightarrow> (string \<times> 'n cell) list" where
  "prepare_row lib args df r =
     (let r1 = (if price_col args \<in> set (columns df) then coerce_row lib (price_col args) r else r);
          r2 = (if units_col args \<in> set (columns df) then coerce_row lib (units_col args) r1 else r1);
          r3 = (if ''Revenue (USD)'' \<in> set (columns df) then coerce_row lib ''Revenue (USD)'' r2 else r2)
      in if ''Revenue (USD)'' \<notin> set (columns df) \<and> price_col args \<in> set (columns df)
            \<and> units_col args \<in> set (columns df)
         then revenue_row (price_col args) (units_col args) r3 else r3)"

text \<open>
  The two summaries are produced: what is asked of the grouping of the library on the
  prepared table, once the columns it reads are there.
\<close>

definition summaries_succeed :: "('n::linordered_idom) pandas_agg \<Rightarrow> agg_args \<Rightarrow> 'n frame \<Rightarrow> bool" where
  "summaries_succeed lib args df =
     ((\<exists>s. summarise lib [brand_col args]
             [(''listings'', if ''Listing'' \<in> set (columns (prepare_frame lib args df))
                             then ''Listing'' else ''Brand (Matched)'', ''count''),
              (''units'', units_col args, ''sum''),
              (''revenue'', ''Revenue (USD)'', ''sum''),
              (''avg_price'', price_col args, ''mean'')] (prepare_frame lib args df) = Inr s)
      \<and> (shop_col args \<in> set (columns (prepare_frame lib args df)) \<longrightarrow>
          (\<exists>s. summarise lib [shop_col args, brand_col args]
             [(''listings'', if ''Listing'' \<in> set (columns (prepare_frame lib args df))
                             then ''Listing'' else brand_col args, ''count''),
              (''units'', units_col args, ''sum''),
              (''revenue'', ''Revenue (USD)'', ''sum'')] (prepare_frame lib args df) = Inr s)))"

section \<open>Instances for evaluation\<close>

text \<open>
  A transliteration that keeps the ASCII code points and drops the others, and two
  integer measures built on the share of the shorter text's characters (or words)
  that occur in the longer one. They meet the contracts above and return 100 where a
  text or a set of words is contained in the other. They stand in for the libraries
  where a concrete run is evaluated; no statement about the libraries rests on them.
\<close>

definition ascii_only :: "string \<Rightarrow> string" where
  "ascii_only s = filter is_ascii s"

definition overlap :: "'a list \<Rightarrow> 'a list \<Rightarrow> int" where
  "overlap a b =
     (if a = [] \<or> b = [] then (if a = b then 100 else 0)
      else if length b \<le> length a
      then int (100 * length (filter (\<lambda>c. c \<in> set a) b) div length b)
      else int (100 * length (filter (\<lambda>c. c \<in> set b) a) div length a))"

fun split_words :: "string \<Rightarrow> string \<Rightarrow> string list" where
  "split_words w [] = (if w = [] then [] else [w])"
| "split_words w (c # cs) =
     (if is_space c then (if w = [] then split_words [] cs else w # split_words [] cs)
      else split_words (w @ [c]) cs)"

definition word_overlap :: "string \<Rightarrow> string \<Rightarrow> int" where
  "word_overlap a b =
     (if split_words [] a = [] \<or> split_words [] b = [] then 0
      else overlap (remdups (split_words [] a)) (remdups (split_words [] b)))"

definition overlap_fuzz :: fuzz where
  "overlap_fuzz =
     \<lparr>partial_ratio = (\<lambda>a b. of_int (overlap a b)),
      token_set_ratio = (\<lambda>a b. of_int (word_overlap a b))\<rparr>"

text \<open>
  The values the library returns for the listing \<open>Generic USB cable\<close> against the key
  \<open>Apple iPhone\<close>: partial ratio 37.5 on the normalized texts and 40 on the compact
  ones, token-set ratio 1200/29 (two texts of 17 and 12 characters with a longest common
  subsequence of 6).
\<close>

definition usb_cable_fuzz :: fuzz where
  "usb_cable_fuzz =
     \<lparr>partial_ratio = (\<lambda>a b. if a = ''generic usb cable'' then 75 / 2 else 40),
      token_set_ratio = (\<lambda>a b. 1200 / 29)\<rparr>"

text \<open>The two behaviours of \<open>|\<close> on the masks of an empty keyspace.\<close>

definition mask_or_returns :: pandas where
  "mask_or_returns = \<lparr>empty_mask_or = None\<rparr>"

definition mask_or_raises :: pandas where
  "mask_or_raises = \<lparr>empty_mask_or = Some TypeError\<rparr>"

text \<open>
  A parser that reads no text as a number and a grouping that returns the header of
  its summary.
\<close>

definition header_agg :: "rat pandas_agg" where
  "header_agg =
     \<lparr>to_numeric = (\<lambda>t. None),
      summarise = (\<lambda>keys named df. Inr \<lparr>columns = keys @ map fst named, rows = []\<rparr>)\<rparr>"

definition default_args :: agg_args where
  "default_args =
     \<lparr>brand_col = ''Brand (Matched)'', shop_col = ''Shop'',
      price_col = ''Price (USD)'', units_col = ''Units Sold (Numeric)''\<rparr>"

definition brands_iphone :: "brand_row list" where
  "brands_iphone =
     [\<lparr>brand = Some ''Apple Store'', key = Some ''Apple iPhone''\<rparr>,
      \<lparr>brand = Some ''iPhone'', key = Some ''iPhone''\<rparr>]"

definition brands_no_brand :: "brand_row list" where
  "brands_no_brand = [\<lparr>brand = Some ''no brand'', key = Some ''No Brand''\<rparr>]"

definition matched_table :: "rat frame" where
  "matched_table =
     \<lparr>columns = [''Shop'', ''Listing'', ''Price (USD)'', ''Units Sold (Numeric)'',
                 ''Brand (Matched)'', ''Match Score''],
      rows =
        [[(''Shop'', Text ''s1''), (''Listing'', Text ''usb cable''),
          (''Price (USD)'', Number (3 / 2)), (''Units Sold (Numeric)'', Number 10),
          (''Brand (Matched)'', Text ''no brand''), (''Match Score'', Number 50)],
         [(''Shop'', Text ''s2''), (''Listing'', Text ''Apple iPhone 13''),
          (''Price (USD)'', Number 900), (''Units Sold (Numeric)'', Number 2),
          (''Brand (Matched)'', Text ''iPhone''), (''Match Score'', Number 100)],
         [(''Shop'', Text ''s3''), (''Listing'', Text ''No Brand cola''),
          (''Price (USD)'', Number 2), (''Units Sold (Numeric)'', Number 4),
          (''Brand (Matched)'', Text ''no brand''), (''Match Score'', Number 100)],
         [(''Shop'', Text ''s4''), (''Listing'', NaN),
          (''Price (USD)'', NaN), (''Units Sold (Numeric)'', NaN),
          (''Brand (Matched)'', Text ''no brand''), (''Match Score'', Number 0)]]\<rparr>"

definition brands_blank :: "brand_row list" where
  "brands_blank =
     [\<lparr>brand = Some ''  '', key = Some ''Acme''\<rparr>,
      \<lparr>brand = Some [], key = Some ''Acme''\<rparr>,
      \<lparr>brand = Some ''Acme'', key = Some ''ACME!''\<rparr>,
      \<lparr>brand = Some ''Acme'', key = Some ''acme''\<rparr>,
      \<lparr>brand = Some ''Acme'', key = None\<rparr>]"

section \<open>The normalizer: shape of the output\<close>

lemma sub_runs_set: "set (sub_runs p f s) \<subseteq> {c \<in> set s. \<not> p c} \<union> {CHR '' ''}"
  by (induction s arbitrary: f) auto

lemma sub_runs_no_lead: "p (CHR '' '') \<Longrightarrow> \<not> prefix '' '' (sub_runs p True s)"
  by (induction s) auto

lemma sub_runs_single: "p (CHR '' '') \<Longrightarrow> \<not> sublist ''  '' (sub_runs p f s)"
proof (induction s arbitrary: f)
  case Nil
  then show ?case by simp
next
  case (Cons c s)
  then show ?case
    by (auto simp: sublist_Cons_right sub_runs_no_lead prefix_Cons)
qed

lemma is_space_sp: "is_space (CHR '' '')"
  by (simp add: is_space_def Let_def)

lemma strip_split: "\<exists>u w. s = u @ strip s @ w"
proof -
  let ?t = "dropWhile is_space s"
  have "strip s @ rev (takeWhile is_space (rev ?t))
          = rev (takeWhile is_space (rev ?t) @ dropWhile is_space (rev ?t))"
    by (simp only: strip_def rev_append)
  also have "\<dots> = rev (rev ?t)" by (simp only: takeWhile_dropWhile_id)
  finally have t: "?t = strip s @ rev (takeWhile is_space (rev ?t))" by simp
  have "s = takeWhile is_space s @ ?t" by simp
  with t have "s = takeWhile is_space s @ strip s @ rev (takeWhile is_space (rev ?t))" by simp
  then show ?thesis by blast
qed

lemma strip_sublist: "sublist (strip s) s"
  using strip_split[of s] by (auto simp: sublist_def)

lemma strip_ends: "strip s \<noteq> [] \<Longrightarrow> \<not> is_space (hd (strip s)) \<and> \<not> is_space (last (strip s))"
proof -
  assume ne: "strip s \<noteq> []"
  let ?t = "dropWhile is_space s"
  let ?d = "dropWhile is_space (rev ?t)"
  have d: "?d \<noteq> []" using ne by (simp add: strip_def)
  have l: "\<not> is_space (hd ?d)" using d hd_dropWhile by blast
  have last: "last (strip s) = hd ?d" using d by (simp add: strip_def last_rev)
  have tne: "?t \<noteq> []"
  proof
    assume a: "?t = []"
    have "?d = dropWhile is_space (rev [])" by (simp only: a)
    with d show False by simp
  qed
  have ht: "\<not> is_space (hd ?t)" using tne hd_dropWhile by blast
  have "rev ?t = takeWhile is_space (rev ?t) @ ?d" by simp
  then have "last (rev ?t) = last ?d" using d by (metis last_appendR)
  then have "hd ?t = last ?d" using tne by (simp add: last_rev)
  then have "hd ?t = hd (strip s)" using d by (simp add: strip_def hd_rev)
  with ht l last show ?thesis by simp
qed

lemma norm_chars: "c \<in> set (norm ud x) \<Longrightarrow> is_lower_alnum c \<or> c = CHR '' ''"
proof (cases x)
  case None
  assume "c \<in> set (norm ud x)"
  with None show ?thesis by (simp add: norm_def)
next
  case (Some t)
  let ?s2 = "re_sub (\<lambda>c. \<not> (is_lower_alnum c \<or> is_space c)) (lower (ud t))"
  assume "c \<in> set (norm ud x)"
  then have "c \<in> set (strip (re_sub is_space ?s2))"
    using Some by (simp add: norm_def)
  then have c3: "c \<in> set (re_sub is_space ?s2)"
    using set_mono_sublist[OF strip_sublist] by blast
  then have "c \<in> {c \<in> set ?s2. \<not> is_space c} \<union> {CHR '' ''}"
    using sub_runs_set[of is_space False ?s2] by (auto simp: re_sub_def)
  moreover have "set ?s2 \<subseteq> {c. is_lower_alnum c \<or> is_space c} \<union> {CHR '' ''}"
    using sub_runs_set[of "\<lambda>c. \<not> (is_lower_alnum c \<or> is_space c)" False "lower (ud t)"]
    by (auto simp: re_sub_def)
  ultimately show ?thesis by auto
qed

lemma norm_single_spaced: "\<not> sublist ''  '' (norm ud x)"
proof (cases x)
  case None
  then show ?thesis by (simp add: norm_def)
next
  case (Some t)
  let ?s3 = "re_sub is_space (re_sub (\<lambda>c. \<not> (is_lower_alnum c \<or> is_space c)) (lower (ud t)))"
  have "\<not> sublist ''  '' ?s3"
    unfolding re_sub_def by (rule sub_runs_single[of is_space, OF is_space_sp])
  moreover have "sublist (norm ud x) ?s3"
    using Some strip_sublist[of ?s3] by (simp add: norm_def)
  ultimately show ?thesis using sublist_order.order_trans by blast
qed

lemma norm_ends:
  "norm ud x \<noteq> [] \<Longrightarrow> hd (norm ud x) \<noteq> CHR '' '' \<and> last (norm ud x) \<noteq> CHR '' ''"
proof (cases x)
  case None
  assume "norm ud x \<noteq> []"
  with None show ?thesis by (simp add: norm_def)
next
  case (Some t)
  let ?s3 = "re_sub is_space (re_sub (\<lambda>c. \<not> (is_lower_alnum c \<or> is_space c)) (lower (ud t)))"
  assume ne: "norm ud x \<noteq> []"
  have eq: "norm ud x = strip ?s3" using Some by (simp add: norm_def)
  from ne strip_ends[of ?s3] is_space_sp show ?thesis
    unfolding eq by metis
qed

lemma norm_no_edge_space: "\<not> prefix '' '' (norm ud x) \<and> \<not> suffix '' '' (norm ud x)"
proof (cases "norm ud x = []")
  case True
  then show ?thesis by simp
next
  case False
  from norm_ends[OF False] have h: "hd (norm ud x) \<noteq> CHR '' ''" and l: "last (norm ud x) \<noteq> CHR '' ''"
    by simp_all
  have "\<not> prefix '' '' (norm ud x)"
    using h False by (cases "norm ud x") auto
  moreover have "\<not> suffix '' '' (norm ud x)"
    using l False by (auto simp: suffix_def)
  ultimately show ?thesis by simp
qed

section \<open>The normalizer on its own output; compact keys\<close>

lemma alnum_not_space: "is_lower_alnum c \<Longrightarrow> \<not> is_space c"
  by (auto simp: is_lower_alnum_def is_space_def Let_def)

lemma alnum_ascii: "is_lower_alnum c \<or> c = CHR '' '' \<Longrightarrow> is_ascii c"
  by (auto simp: is_lower_alnum_def is_ascii_def Let_def)

lemma lower_char_id: "is_lower_alnum c \<or> c = CHR '' '' \<Longrightarrow> lower_char c = c"
  by (auto simp: is_lower_alnum_def lower_char_def Let_def)

lemma sub_runs_id: "\<forall>c\<in>set s. \<not> p c \<Longrightarrow> sub_runs p f s = s"
  by (induction s arbitrary: f) auto

lemma sub_runs_space_id:
  "\<forall>c\<in>set s. is_space c \<longrightarrow> c = CHR '' '' \<Longrightarrow> \<not> sublist ''  '' s \<Longrightarrow>
   (f \<longrightarrow> \<not> prefix '' '' s) \<Longrightarrow> sub_runs is_space f s = s"
proof (induction s arbitrary: f)
  case Nil
  then show ?case by simp
next
  case (Cons c s)
  have tl: "\<not> sublist ''  '' s" using Cons.prems(2) by (auto simp: sublist_Cons_right)
  have all: "\<forall>c\<in>set s. is_space c \<longrightarrow> c = CHR '' ''" using Cons.prems(1) by simp
  show ?case
  proof (cases "is_space c")
    case True
    then have c: "c = CHR '' ''" using Cons.prems(1) by simp
    have f: "\<not> f" using Cons.prems(3) c by auto
    have "\<not> prefix ''  '' (c # s)" using Cons.prems(2) by (auto simp: sublist_Cons_right)
    then have "\<not> prefix '' '' s" using c by simp
    then have "sub_runs is_space True s = s" using Cons.IH[OF all tl] by simp
    then show ?thesis using True f c by simp
  next
    case False
    have "sub_runs is_space False s = s" using Cons.IH[OF all tl] by simp
    then show ?thesis using False by simp
  qed
qed

lemma strip_id:
  assumes "\<forall>c\<in>set y. is_space c \<longrightarrow> c = CHR '' ''"
    and "\<not> prefix '' '' y" and "\<not> suffix '' '' y"
  shows "strip y = y"
proof (cases "y = []")
  case True
  then show ?thesis by (simp add: strip_def)
next
  case False
  have "hd y \<in> set y" "last y \<in> set y" using False by simp_all
  have h: "\<not> is_space (hd y)"
  proof
    assume "is_space (hd y)"
    then have "hd y = CHR '' ''" using assms(1) \<open>hd y \<in> set y\<close> by blast
    then have "prefix '' '' y" using False by (cases y) auto
    with assms(2) show False by simp
  qed
  have l: "\<not> is_space (last y)"
  proof
    assume "is_space (last y)"
    then have "last y = CHR '' ''" using assms(1) \<open>last y \<in> set y\<close> by blast
    then have "y = butlast y @ '' ''" using False by (metis append_butlast_last_id)
    then have "suffix '' '' y" by (metis suffixI)
    with assms(3) show False by simp
  qed
  have 1: "dropWhile is_space y = y" using h by (simp add: dropWhile_eq_self_iff)
  have "hd (rev y) = last y" using False by (simp add: hd_rev)
  then have 2: "dropWhile is_space (rev y) = rev y" using l by (simp add: dropWhile_eq_self_iff)
  show ?thesis by (simp add: strip_def 1 2)
qed

lemma norm_fixed:
  assumes ud: "ascii_fixed ud"
    and chars: "\<forall>c\<in>set y. is_lower_alnum c \<or> c = CHR '' ''"
    and single: "\<not> sublist ''  '' y"
    and edges: "\<not> prefix '' '' y" "\<not> suffix '' '' y"
  shows "norm ud (Some y) = y"
proof -
  have "list_all is_ascii y" using chars alnum_ascii by (auto simp: list_all_iff)
  then have 1: "ud y = y" using ud by (simp add: ascii_fixed_def)
  have 2: "lower y = y" using chars lower_char_id by (simp add: lower_def map_idI)
  have 3: "re_sub (\<lambda>c. \<not> (is_lower_alnum c \<or> is_space c)) y = y"
    unfolding re_sub_def using chars is_space_sp by (intro sub_runs_id) auto
  have sp: "\<forall>c\<in>set y. is_space c \<longrightarrow> c = CHR '' ''"
    using chars alnum_not_space by blast
  have 4: "re_sub is_space y = y"
    unfolding re_sub_def using sub_runs_space_id[OF sp single] by simp
  have 5: "strip y = y" using strip_id[OF sp edges] .
  show ?thesis unfolding norm_def Let_def by (simp only: option.case 1 2 3 4 5)
qed

lemma compact_nonempty: "norm ud x \<noteq> [] \<Longrightarrow> compact (norm ud x) \<noteq> []"
proof -
  assume ne: "norm ud x \<noteq> []"
  then have "hd (norm ud x) \<noteq> CHR '' ''" using norm_ends by blast
  moreover have "hd (norm ud x) \<in> set (norm ud x)" using ne by simp
  ultimately have "\<exists>c\<in>set (norm ud x). c \<noteq> CHR '' ''" by blast
  then show ?thesis using ne by (auto simp: compact_def filter_empty_conv)
qed

lemma drop_duplicates_subset: "set (drop_duplicates seen rs) \<subseteq> set rs"
  by (induction rs arbitrary: seen) auto

lemma keyspace_rows:
  "r \<in> set (build_brand_keyspace ud t) \<Longrightarrow>
   key_norm r \<noteq> [] \<and> brand r \<noteq> Some [] \<and> (\<exists>b\<in>set t. r = add_key_columns ud b)"
proof -
  assume "r \<in> set (build_brand_keyspace ud t)"
  then have "r \<in> set (filter (\<lambda>r. key_norm r \<noteq> [] \<and> brand r \<noteq> Some [])
                   (map (add_key_columns ud) t))"
    using drop_duplicates_subset unfolding build_brand_keyspace_def Let_def by blast
  then show ?thesis by auto
qed

lemma keyspace_compact:
  "r \<in> set (build_brand_keyspace ud t) \<Longrightarrow> key_compact r \<noteq> [] \<and> key_norm r \<noteq> []"
proof -
  assume "r \<in> set (build_brand_keyspace ud t)"
  then obtain b where "key_norm r \<noteq> []" and r: "r = add_key_columns ud b"
    using keyspace_rows by blast
  then show ?thesis using compact_nonempty[of ud "fillna (key b)"]
    by (simp add: add_key_columns_def Let_def)
qed

lemma ascii_only_fixed: "ascii_fixed ascii_only"
  by (simp add: ascii_fixed_def ascii_only_def list_all_iff)

section \<open>Properties of the normalizer\<close>

text \<open>
  C4. \<open>norm\<close> is idempotent: normalizing the normalized text of any cell (a text or
  a missing value) returns it unchanged. The transliteration is the library's; what
  is used of it is that it returns a text of ASCII code points as it is.
\<close>

theorem norm_idempotent:
  "ascii_fixed unidecode \<Longrightarrow> norm unidecode (Some (norm unidecode x)) = norm unidecode x"
  using norm_fixed[of unidecode "norm unidecode x"] norm_chars[of _ unidecode x]
    norm_single_spaced[of unidecode x] norm_no_edge_space[of unidecode x]
  by blast

theorem norm_idempotent_witness:
  "ascii_fixed ascii_only \<and>
   norm ascii_only (Some (norm ascii_only (Some (''Caf'' @ [CHR 0xE9] @ ''  AU-lait! ''))))
     = norm ascii_only (Some (''Caf'' @ [CHR 0xE9] @ ''  AU-lait! ''))"
  by (rule conjI[OF ascii_only_fixed norm_idempotent[OF ascii_only_fixed]])

text \<open>
  C5. The output of \<open>norm\<close> holds only characters of \<open>[a-z0-9]\<close> and spaces, never
  two spaces in a row, and neither starts nor ends with a space; this for every input
  and every transliteration.
\<close>

theorem norm_output_shape:
  "(\<forall>c\<in>set (norm unidecode x). is_lower_alnum c \<or> c = CHR '' '')
   \<and> \<not> sublist ''  '' (norm unidecode x)
   \<and> \<not> prefix '' '' (norm unidecode x) \<and> \<not> suffix '' '' (norm unidecode x)"
  using norm_chars[of _ unidecode x] norm_single_spaced[of unidecode x]
    norm_no_edge_space[of unidecode x]
  by blast

theorem norm_output_shape_witness:
  "norm ascii_only (Some ''  Apple   iPhone-13 Pro!! '') = ''apple iphone 13 pro''
   \<and> list_all (\<lambda>c. is_lower_alnum c \<or> c = CHR '' '') (norm ascii_only (Some ''  Apple   iPhone-13 Pro!! ''))
   \<and> \<not> sublist ''  '' (norm ascii_only (Some ''  Apple   iPhone-13 Pro!! ''))
   \<and> \<not> prefix '' '' (norm ascii_only (Some ''  Apple   iPhone-13 Pro!! ''))
   \<and> \<not> suffix '' '' (norm ascii_only (Some ''  Apple   iPhone-13 Pro!! ''))"
proof -
  have e: "norm ascii_only (Some ''  Apple   iPhone-13 Pro!! '') = ''apple iphone 13 pro''"
    by code_simp
  show ?thesis
    unfolding list_all_iff by (rule conjI[OF e norm_output_shape])
qed

text \<open>
  C9. Every entry of the built keyspace has a non-empty normalized key with at least
  one character that is not a space, and its compact key, the normalized key without
  its spaces, is not empty either: the shortlist never tests an empty compact key.
\<close>

theorem keyspace_compact_nonempty:
  "r \<in> set (build_brand_keyspace unidecode brands_df) \<Longrightarrow>
   key_norm r \<noteq> [] \<and> (\<exists>c\<in>set (key_norm r). c \<noteq> CHR '' '')
   \<and> key_compact r = filter (\<lambda>c. c \<noteq> CHR '' '') (key_norm r) \<and> key_compact r \<noteq> []"
proof -
  assume r: "r \<in> set (build_brand_keyspace unidecode brands_df)"
  then obtain b where ne: "key_norm r \<noteq> []" and rb: "r = add_key_columns unidecode b"
    using keyspace_rows by blast
  have kc: "key_compact r = filter (\<lambda>c. c \<noteq> CHR '' '') (key_norm r)"
    using ne rb by (simp add: add_key_columns_def Let_def compact_def)
  have kne: "key_compact r \<noteq> []" using keyspace_compact[OF r] by simp
  then have "\<exists>c\<in>set (key_norm r). c \<noteq> CHR '' ''"
    unfolding kc by (simp add: filter_empty_conv)
  with ne kc kne show ?thesis by simp
qed

theorem keyspace_compact_nonempty_witness:
  "\<lparr>brand = Some ''Apple Store'', key = Some ''Apple iPhone'',
     key_norm = ''apple iphone'', key_compact = ''appleiphone''\<rparr>
     \<in> set (build_brand_keyspace ascii_only brands_iphone)
   \<and> key_compact \<lparr>brand = Some ''Apple Store'', key = Some ''Apple iPhone'',
        key_norm = ''apple iphone'', key_compact = ''appleiphone''\<rparr> \<noteq> []"
proof -
  have m: "\<lparr>brand = Some ''Apple Store'', key = Some ''Apple iPhone'',
     key_norm = ''apple iphone'', key_compact = ''appleiphone''\<rparr>
     \<in> set (build_brand_keyspace ascii_only brands_iphone)"
    by code_simp
  from keyspace_compact_nonempty[OF m] have "key_compact \<lparr>brand = Some ''Apple Store'',
     key = Some ''Apple iPhone'', key_norm = ''apple iphone'', key_compact = ''appleiphone''\<rparr> \<noteq> []"
    by blast
  with m show ?thesis by (rule conjI)
qed

section \<open>The keyspace: validity, uniqueness, first occurrence\<close>

lemma dd_pairs:
  "set (map pair_of (drop_duplicates seen rs)) = set (map pair_of rs) - set seen"
  by (induction rs arbitrary: seen) (auto simp: pair_of_def)

lemma dd_distinct: "distinct (map pair_of (drop_duplicates seen rs))"
proof (induction rs arbitrary: seen)
  case Nil
  then show ?case by simp
next
  case (Cons r rs)
  have "pair_of r \<notin> set (map pair_of (drop_duplicates (pair_of r # seen) rs))"
    unfolding dd_pairs by simp
  then show ?case using Cons.IH by (simp add: pair_of_def)
qed

lemma dd_subseq: "subseq (drop_duplicates seen rs) rs"
  by (induction rs arbitrary: seen) auto

lemma dd_first:
  "r \<in> set (drop_duplicates seen rs) \<Longrightarrow> find (\<lambda>x. pair_of x = pair_of r) rs = Some r"
proof (induction rs arbitrary: seen)
  case Nil
  then show ?case by simp
next
  case (Cons a rs)
  show ?case
  proof (cases "pair_of a = pair_of r")
    case True
    have "r = a"
    proof (cases "pair_of a \<in> set seen")
      case True
      with Cons.prems have "r \<in> set (drop_duplicates seen rs)" by (simp add: pair_of_def)
      then have "pair_of r \<in> set (map pair_of rs) - set seen"
        using dd_pairs[of seen rs] by auto
      with True \<open>pair_of a = pair_of r\<close> show ?thesis by simp
    next
      case False
      with Cons.prems have "r = a \<or> r \<in> set (drop_duplicates (pair_of a # seen) rs)"
        by (auto simp: pair_of_def)
      moreover have "r \<notin> set (drop_duplicates (pair_of a # seen) rs)"
      proof
        assume "r \<in> set (drop_duplicates (pair_of a # seen) rs)"
        then have "pair_of r \<in> set (map pair_of rs) - set (pair_of a # seen)"
          using dd_pairs[of "pair_of a # seen" rs] by auto
        with True show False by simp
      qed
      ultimately show ?thesis by simp
    qed
    with True show ?thesis by simp
  next
    case False
    then have "r \<noteq> a" by auto
    with Cons.prems have "r \<in> set (drop_duplicates seen rs) \<or>
        r \<in> set (drop_duplicates (pair_of a # seen) rs)"
      by (auto simp: pair_of_def split: if_splits)
    then have "find (\<lambda>x. pair_of x = pair_of r) rs = Some r" using Cons.IH by blast
    with False show ?thesis by simp
  qed
qed

lemma build_eq: "build_brand_keyspace ud t = drop_duplicates [] (valid_rows ud t)"
  by (simp add: build_brand_keyspace_def valid_rows_def Let_def)

text \<open>
  C3, as the code has it. The built keyspace has no entry with an empty normalized key
  and no entry whose brand is the empty text; no two entries share the pair (brand,
  normalized key); the entries are rows of the valid input in input order, every pair
  of the valid input is kept, and the entry kept for a pair is the first valid row that
  has it. A brand of blanks only is not the empty text and stays in.
\<close>

theorem keyspace_unique_first:
  "(\<forall>r\<in>set (build_brand_keyspace unidecode brands_df). key_norm r \<noteq> [] \<and> brand r \<noteq> Some [])
   \<and> distinct (map pair_of (build_brand_keyspace unidecode brands_df))
   \<and> subseq (build_brand_keyspace unidecode brands_df) (valid_rows unidecode brands_df)
   \<and> set (map pair_of (build_brand_keyspace unidecode brands_df))
       = set (map pair_of (valid_rows unidecode brands_df))
   \<and> (\<forall>r\<in>set (build_brand_keyspace unidecode brands_df).
        find (\<lambda>x. pair_of x = pair_of r) (valid_rows unidecode brands_df) = Some r)"
proof -
  have 1: "\<forall>r\<in>set (build_brand_keyspace unidecode brands_df). key_norm r \<noteq> [] \<and> brand r \<noteq> Some []"
    using keyspace_rows by blast
  have 2: "distinct (map pair_of (build_brand_keyspace unidecode brands_df))"
    unfolding build_eq by (rule dd_distinct)
  have 3: "subseq (build_brand_keyspace unidecode brands_df) (valid_rows unidecode brands_df)"
    unfolding build_eq by (rule dd_subseq)
  have 4: "set (map pair_of (build_brand_keyspace unidecode brands_df))
       = set (map pair_of (valid_rows unidecode brands_df))"
    unfolding build_eq dd_pairs by simp
  have 5: "\<forall>r\<in>set (build_brand_keyspace unidecode brands_df).
        find (\<lambda>x. pair_of x = pair_of r) (valid_rows unidecode brands_df) = Some r"
    unfolding build_eq using dd_first by blast
  from 1 2 3 4 5 show ?thesis by blast
qed

text \<open>
  C3 as stated fails on a brand of two spaces: its row is in the keyspace. The row with
  the empty brand is dropped, and of the two rows of brand Acme with the normalized key
  \<open>acme\<close> the first is kept.
\<close>

theorem keyspace_blank_brand_counterexample:
  "build_brand_keyspace ascii_only brands_blank =
     [\<lparr>brand = Some ''  '', key = Some ''Acme'', key_norm = ''acme'', key_compact = ''acme''\<rparr>,
      \<lparr>brand = Some ''Acme'', key = Some ''ACME!'', key_norm = ''acme'', key_compact = ''acme''\<rparr>]"
  by code_simp

theorem keyspace_unique_first_witness:
  "build_brand_keyspace ascii_only brands_blank =
     [\<lparr>brand = Some ''  '', key = Some ''Acme'', key_norm = ''acme'', key_compact = ''acme''\<rparr>,
      \<lparr>brand = Some ''Acme'', key = Some ''ACME!'', key_norm = ''acme'', key_compact = ''acme''\<rparr>]
   \<and> distinct (map pair_of (build_brand_keyspace ascii_only brands_blank))
   \<and> subseq (build_brand_keyspace ascii_only brands_blank) (valid_rows ascii_only brands_blank)"
proof -
  have e: "build_brand_keyspace ascii_only brands_blank =
     [\<lparr>brand = Some ''  '', key = Some ''Acme'', key_norm = ''acme'', key_compact = ''acme''\<rparr>,
      \<lparr>brand = Some ''Acme'', key = Some ''ACME!'', key_norm = ''acme'', key_compact = ''acme''\<rparr>]"
    by code_simp
  note k = keyspace_unique_first[of ascii_only brands_blank]
  from e k show ?thesis by blast
qed

section \<open>The scan for the best match\<close>

lemma Max_insert_max:
  "finite A \<Longrightarrow> Max (insert (max a b) A) = Max (insert a (insert b A))"
  by (cases "A = {}") (simp_all add: max.assoc)

lemma scan_Cons:
  "scan fz lnm lcp (row # rs) best =
     scan fz lnm lcp rs
       (if row_score fz lnm lcp row > fst (snd best)
        then (Some (brand row), row_score fz lnm lcp row, Some (key_norm row)) else best)"
  by (simp add: row_score_def Let_def)

lemma scan_score:
  "fst (snd (scan fz lnm lcp rs best)) =
     Max (insert (fst (snd best)) (set (map (row_score fz lnm lcp) rs)))"
proof (induction rs arbitrary: best)
  case Nil
  then show ?case by simp
next
  case (Cons row rs)
  let ?sc = "row_score fz lnm lcp row"
  let ?A = "set (map (row_score fz lnm lcp) rs)"
  let ?nb = "if ?sc > fst (snd best) then (Some (brand row), ?sc, Some (key_norm row)) else best"
  have nb: "fst (snd ?nb) = max (fst (snd best)) ?sc" by auto
  have "fst (snd (scan fz lnm lcp (row # rs) best)) = fst (snd (scan fz lnm lcp rs ?nb))"
    by (simp only: scan_Cons)
  also have "\<dots> = Max (insert (max (fst (snd best)) ?sc) ?A)"
    unfolding Cons.IH[of ?nb] nb ..
  also have "\<dots> = Max (insert (fst (snd best)) (insert ?sc ?A))"
    by (rule Max_insert_max) simp
  finally show ?case by simp
qed

lemma scan_unchanged:
  "\<forall>r\<in>set rs. row_score fz lnm lcp r \<le> fst (snd best) \<Longrightarrow> scan fz lnm lcp rs best = best"
proof (induction rs arbitrary: best)
  case Nil
  then show ?case by simp
next
  case (Cons row rs)
  then show ?case by (simp add: scan_Cons del: scan.simps)
qed

lemma scan_first_best:
  assumes "\<exists>r\<in>set rs. row_score fz lnm lcp r > fst (snd best)"
  shows "\<exists>r. find (\<lambda>x. row_score fz lnm lcp x =
                  Max (insert (fst (snd best)) (set (map (row_score fz lnm lcp) rs)))) rs = Some r
            \<and> scan fz lnm lcp rs best
                = (Some (brand r), row_score fz lnm lcp r, Some (key_norm r))"
  using assms
proof (induction rs arbitrary: best)
  case Nil
  then show ?case by simp
next
  case (Cons row rs)
  let ?sc = "row_score fz lnm lcp row"
  let ?A = "set (map (row_score fz lnm lcp) rs)"
  let ?s = "fst (snd best)"
  let ?M = "Max (insert ?s (set (map (row_score fz lnm lcp) (row # rs))))"
  have fin: "finite ?A" by simp
  show ?case
  proof (cases "?sc > ?s")
    case True
    let ?nb = "(Some (brand row), ?sc, Some (key_norm row))"
    have step: "scan fz lnm lcp (row # rs) best = scan fz lnm lcp rs ?nb"
      using True by (simp only: scan_Cons if_True)
    have M: "?M = Max (insert ?sc ?A)"
    proof -
      have "?M = Max (insert (max ?s ?sc) ?A)"
        using Max_insert_max[OF fin, of ?s ?sc] by simp
      then show ?thesis using True by (simp add: max_def)
    qed
    show ?thesis
    proof (cases "\<exists>r\<in>set rs. row_score fz lnm lcp r > ?sc")
      case True
      then obtain r where r: "find (\<lambda>x. row_score fz lnm lcp x = Max (insert ?sc ?A)) rs = Some r"
        and sr: "scan fz lnm lcp rs ?nb = (Some (brand r), row_score fz lnm lcp r, Some (key_norm r))"
        using Cons.IH[of ?nb] by auto
      from True obtain r' where "r' \<in> set rs" "row_score fz lnm lcp r' > ?sc" by blast
      then have "Max (insert ?sc ?A) \<ge> row_score fz lnm lcp r'"
        by (intro Max_ge) auto
      then have "?sc \<noteq> Max (insert ?sc ?A)" using \<open>row_score fz lnm lcp r' > ?sc\<close> by linarith
      then have "find (\<lambda>x. row_score fz lnm lcp x = ?M) (row # rs) = Some r"
        using r M by simp
      with sr step show ?thesis by simp
    next
      case False
      then have le: "\<forall>r\<in>set rs. row_score fz lnm lcp r \<le> ?sc" by auto
      then have sr: "scan fz lnm lcp rs ?nb = ?nb" using scan_unchanged[of rs fz lnm lcp ?nb] by simp
      have "Max (insert ?sc ?A) = ?sc"
        using le by (intro Max_eqI) auto
      then have "find (\<lambda>x. row_score fz lnm lcp x = ?M) (row # rs) = Some row"
        using M by simp
      with sr step show ?thesis by simp
    qed
  next
    case False
    have step: "scan fz lnm lcp (row # rs) best = scan fz lnm lcp rs best"
      using False by (simp only: scan_Cons if_False)
    have M: "?M = Max (insert ?s ?A)"
    proof -
      have "?M = Max (insert (max ?s ?sc) ?A)"
        using Max_insert_max[OF fin, of ?s ?sc] by simp
      then show ?thesis using False by (simp add: max_def)
    qed
    from Cons.prems False have ex: "\<exists>r\<in>set rs. row_score fz lnm lcp r > ?s" by auto
    then obtain r where r: "find (\<lambda>x. row_score fz lnm lcp x = Max (insert ?s ?A)) rs = Some r"
      and sr: "scan fz lnm lcp rs best = (Some (brand r), row_score fz lnm lcp r, Some (key_norm r))"
      using Cons.IH[of best] by auto
    from ex obtain r' where "r' \<in> set rs" "row_score fz lnm lcp r' > ?s" by blast
    then have "Max (insert ?s ?A) \<ge> row_score fz lnm lcp r'"
      by (intro Max_ge) auto
    then have "?sc \<noteq> Max (insert ?s ?A)"
      using \<open>row_score fz lnm lcp r' > ?s\<close> False by linarith
    then have "find (\<lambda>x. row_score fz lnm lcp x = ?M) (row # rs) = Some r"
      using r M by simp
    with sr step show ?thesis by simp
  qed
qed

lemma best_brand_scan:
  "best_match fz lnm lcp keys = scan fz lnm lcp (candidates_of lnm lcp keys) (None, 0, None)"
  by (simp add: best_match_def)

lemma best_brand_score:
  "fst (snd (best_match fz lnm lcp keys)) = best_score fz lnm lcp (candidates_of lnm lcp keys)"
  by (simp add: best_brand_scan scan_score best_score_def)

lemma best_score_nonneg: "best_score fz lnm lcp cands \<ge> 0"
  unfolding best_score_def by (intro Max_ge) auto

lemma best_brand_none:
  assumes "best_score fz lnm lcp (candidates_of lnm lcp keys) \<le> 0"
  shows "best_match fz lnm lcp keys = (None, 0, None)"
proof -
  have "\<forall>r\<in>set (candidates_of lnm lcp keys). row_score fz lnm lcp r \<le> 0"
  proof
    fix r assume "r \<in> set (candidates_of lnm lcp keys)"
    then have "row_score fz lnm lcp r \<le> best_score fz lnm lcp (candidates_of lnm lcp keys)"
      unfolding best_score_def by (intro Max_ge) auto
    with assms show "row_score fz lnm lcp r \<le> 0" by linarith
  qed
  then show ?thesis
    unfolding best_brand_scan by (intro scan_unchanged) simp
qed

lemma best_brand_some:
  assumes "best_score fz lnm lcp (candidates_of lnm lcp keys) > 0"
  shows "\<exists>r. best_candidate fz lnm lcp (candidates_of lnm lcp keys) = Some r
           \<and> r \<in> set (candidates_of lnm lcp keys)
           \<and> row_score fz lnm lcp r = best_score fz lnm lcp (candidates_of lnm lcp keys)
           \<and> best_match fz lnm lcp keys
               = (Some (brand r), best_score fz lnm lcp (candidates_of lnm lcp keys), Some (key_norm r))"
proof -
  let ?c = "candidates_of lnm lcp keys"
  let ?M = "best_score fz lnm lcp ?c"
  have "?M \<in> insert 0 (set (map (row_score fz lnm lcp) ?c))"
    unfolding best_score_def by (intro Max_in) auto
  with assms have "\<exists>r\<in>set ?c. row_score fz lnm lcp r > fst (snd (None :: string option option, 0 :: rat, None :: string option))"
    by auto
  from scan_first_best[OF this]
  obtain r where f: "find (\<lambda>x. row_score fz lnm lcp x = ?M) ?c = Some r"
    and s: "scan fz lnm lcp ?c (None, 0, None) = (Some (brand r), row_score fz lnm lcp r, Some (key_norm r))"
    by (auto simp: best_score_def)
  from f have rs: "row_score fz lnm lcp r = ?M" and rin: "r \<in> set ?c"
    by (auto simp: find_Some_iff)
  have "best_candidate fz lnm lcp ?c = Some r" using assms f by (simp add: best_candidate_def)
  with s rs rin show ?thesis by (simp add: best_brand_scan)
qed

section \<open>The matching loop, with and without the error of the mask\<close>

lemma select_rows_map2:
  "select_rows keys (map2 (\<or>) (map p keys) (map q keys)) = filter (\<lambda>r. p r \<or> q r) keys"
  by (induction keys) (auto simp: select_rows_def)

lemma best_brand_ok:
  assumes "keys \<noteq> [] \<or> empty_mask_or pd = None"
  shows "best_brand pd fz lnm lcp keys = Inr (best_match fz lnm lcp keys)"
proof (cases "keys = []")
  case True
  with assms have "empty_mask_or pd = None" by simp
  with True show ?thesis
    by (simp add: best_brand_def mask_or_def select_rows_def best_match_def candidates_of_def
        shortlist_def)
next
  case False
  then have m: "mask_or pd (map (\<lambda>r. sublist (key_norm r) lnm) keys)
                        (map (\<lambda>r. sublist (key_compact r) lcp) keys)
      = Inr (map2 (\<or>) (map (\<lambda>r. sublist (key_norm r) lnm) keys)
                        (map (\<lambda>r. sublist (key_compact r) lcp) keys))"
    by (simp add: mask_or_def)
  show ?thesis
    unfolding best_brand_def m
    by (simp add: select_rows_map2 best_match_def candidates_of_def shortlist_def Let_def)
qed

lemma best_brand_raises:
  "keys = [] \<Longrightarrow> empty_mask_or pd = Some e \<Longrightarrow> best_brand pd fz lnm lcp keys = Inl e"
  by (simp add: best_brand_def mask_or_def)


lemma is_matched_ok:
  assumes "keys \<noteq> [] \<or> empty_mask_or pd = None"
  shows "is_matched pd fz t keys l
           = accepted t (fst (best_match fz (fst l) (snd l) keys))
                        (fst (snd (best_match fz (fst l) (snd l) keys)))"
  unfolding is_matched_def best_brand_ok[OF assms]
  by (cases "best_match fz (fst l) (snd l) keys") simp

lemma is_matched_nonempty: "is_matched pd fz t keys l \<Longrightarrow> keys \<noteq> [] \<or> empty_mask_or pd = None"
proof (rule ccontr)
  assume m: "is_matched pd fz t keys l" and n: "\<not> (keys \<noteq> [] \<or> empty_mask_or pd = None)"
  then obtain e where "keys = []" "empty_mask_or pd = Some e" by auto
  then have "best_brand pd fz (fst l) (snd l) keys = Inl e" by (rule best_brand_raises)
  with m show False by (simp add: is_matched_def)
qed

lemma match_step_ok:
  assumes "keys \<noteq> [] \<or> empty_mask_or pd = None"
  shows "match_step pd fz t keys acc l =
     Inr \<lparr>matched_brand = matched_brand acc @
            [if is_matched pd fz t keys l then the (fst (best_match fz (fst l) (snd l) keys))
             else Some ''no brand''],
          match_score = match_score acc @ [fst (snd (best_match fz (fst l) (snd l) keys))],
          matched_key = matched_key acc @ [snd (snd (best_match fz (fst l) (snd l) keys))]\<rparr>"
  unfolding match_step_def is_matched_ok[OF assms] best_brand_ok[OF assms]
  by (cases "best_match fz (fst l) (snd l) keys") simp

lemma match_loop_ok:
  assumes "keys \<noteq> [] \<or> empty_mask_or pd = None"
  shows "match_loop pd fz t keys acc ls =
     Inr \<lparr>matched_brand = matched_brand acc @
            map (\<lambda>l. if is_matched pd fz t keys l then the (fst (best_match fz (fst l) (snd l) keys))
                      else Some ''no brand'') ls,
          match_score = match_score acc @ map (\<lambda>l. fst (snd (best_match fz (fst l) (snd l) keys))) ls,
          matched_key = matched_key acc @ map (\<lambda>l. snd (snd (best_match fz (fst l) (snd l) keys))) ls\<rparr>"
proof (induction ls arbitrary: acc)
  case Nil
  then show ?case by simp
next
  case (Cons l ls)
  show ?case
    by (simp add: match_step_ok[OF assms] Cons.IH)
qed

lemma match_loop_raises:
  "keys = [] \<Longrightarrow> empty_mask_or pd = Some e \<Longrightarrow> ls \<noteq> [] \<Longrightarrow>
   match_loop pd fz t keys acc ls = Inl e"
  by (cases ls) (simp_all add: match_step_def best_brand_raises)

lemma zip_prepare:
  "zip (map (\<lambda>c. norm ud (fillna c)) col) (map compact (map (\<lambda>c. norm ud (fillna c)) col))
     = prepare ud col"
  by (induction col) (simp_all add: prepare_def)

lemma length_prepare: "length (prepare ud col) = length col"
  by (simp add: prepare_def)

lemma match_listings_loop:
  "match_listings pd ud fz t brands col =
     match_loop pd fz t (build_brand_keyspace ud brands)
       \<lparr>matched_brand = [], match_score = [], matched_key = []\<rparr> (prepare ud col)"
  unfolding match_listings_def Let_def zip_prepare ..

lemma match_listings_ok:
  assumes "build_brand_keyspace ud brands \<noteq> [] \<or> empty_mask_or pd = None"
  shows "match_listings pd ud fz t brands col =
     Inr \<lparr>matched_brand =
            map (\<lambda>l. if is_matched pd fz t (build_brand_keyspace ud brands) l
                      then the (fst (best_match fz (fst l) (snd l) (build_brand_keyspace ud brands)))
                      else Some ''no brand'') (prepare ud col),
          match_score =
            map (\<lambda>l. fst (snd (best_match fz (fst l) (snd l) (build_brand_keyspace ud brands))))
              (prepare ud col),
          matched_key =
            map (\<lambda>l. snd (snd (best_match fz (fst l) (snd l) (build_brand_keyspace ud brands))))
              (prepare ud col)\<rparr>"
  unfolding match_listings_loop match_loop_ok[OF assms] by simp

lemma match_listings_raises:
  assumes "build_brand_keyspace ud brands = []" and "empty_mask_or pd = Some e" and "col \<noteq> []"
  shows "match_listings pd ud fz t brands col = Inl e"
proof -
  have "prepare ud col \<noteq> []" using assms(3) by (simp add: prepare_def)
  then show ?thesis
    unfolding match_listings_loop using match_loop_raises[OF assms(1,2)] by simp
qed

lemma best_match_key:
  "snd (snd (best_match fz lnm lcp keys))
     = map_option key_norm (best_candidate fz lnm lcp (candidates_of lnm lcp keys))"
proof (cases "best_score fz lnm lcp (candidates_of lnm lcp keys) > 0")
  case True
  from best_brand_some[OF True] show ?thesis by auto
next
  case False
  then have "best_match fz lnm lcp keys = (None, 0, None)" using best_brand_none by simp
  with False show ?thesis by (simp add: best_candidate_def)
qed

section \<open>The score of a listing against a key\<close>

lemma overlap_range: "0 \<le> overlap a b \<and> overlap a b \<le> 100"
proof -
  have d: "\<And>(k::nat) n. k \<le> n \<Longrightarrow> 100 * k div n \<le> 100"
  proof -
    fix k n :: nat
    assume "k \<le> n"
    then have "100 * k div n \<le> 100 * n div n" by (intro div_le_mono) simp
    also have "\<dots> \<le> 100" by (cases "n = 0") simp_all
    finally show "100 * k div n \<le> 100" .
  qed
  have 1: "100 * length (filter (\<lambda>c. c \<in> set a) b) div length b \<le> 100" by (rule d) simp
  have 2: "100 * length (filter (\<lambda>c. c \<in> set b) a) div length a \<le> 100" by (rule d) simp
  show ?thesis using 1 2 by (simp add: overlap_def)
qed

lemma of_int_range: "0 \<le> (i::int) \<and> i \<le> 100 \<Longrightarrow> 0 \<le> (of_int i :: rat) \<and> (of_int i :: rat) \<le> 100"
proof -
  assume a: "0 \<le> i \<and> i \<le> 100"
  then have "(of_int 0 :: rat) \<le> of_int i" "(of_int i :: rat) \<le> of_int 100"
    by (simp_all only: of_int_le_iff)
  then show ?thesis by simp
qed

lemma overlap_fuzz_bounded: "fuzz_bounded overlap_fuzz"
proof -
  have w: "0 \<le> word_overlap a b \<and> word_overlap a b \<le> 100" for a b
    by (simp add: word_overlap_def overlap_range)
  show ?thesis
    by (simp add: fuzz_bounded_def overlap_fuzz_def overlap_range w)
qed

lemma overlap_fuzz_contained: "fuzz_contained overlap_fuzz"
proof -
  have "overlap s k = 100" if k: "k \<noteq> []" and sub: "sublist k s" for s k :: string
  proof -
    have len: "length k \<le> length s" using sub by (rule sublist_length_le)
    then have s: "s \<noteq> []" using k by auto
    have "filter (\<lambda>c. c \<in> set s) k = k" using set_mono_sublist[OF sub] by (auto simp: filter_id_conv)
    then show ?thesis using k s len by (simp add: overlap_def)
  qed
  then show ?thesis by (simp add: fuzz_contained_def overlap_fuzz_def)
qed

text \<open>
  C2. The score of a listing against a key is the maximum of the three measures:
  partial ratio on the normalized texts, token-set ratio on the normalized texts,
  partial ratio on the compact texts; it lies in 0..100 when the measures do. It is not
  an integer in general: nothing rounds it, and for the listing \<open>Generic USB cable\<close>
  against the key \<open>Apple iPhone\<close>, with the values the library returns there, the score
  is 1200/29.
\<close>

theorem score_is_max_not_integer:
  "score_listing_against_key fz list_norm list_compact kn kc
     = Max {partial_ratio fz list_norm kn, token_set_ratio fz list_norm kn,
            partial_ratio fz list_compact kc}
   \<and> (fuzz_bounded fz \<longrightarrow>
        0 \<le> score_listing_against_key fz list_norm list_compact kn kc
        \<and> score_listing_against_key fz list_norm list_compact kn kc \<le> 100)
   \<and> (partial_ratio fz ''generic usb cable'' ''apple iphone'' = 75 / 2
        \<and> token_set_ratio fz ''generic usb cable'' ''apple iphone'' = 1200 / 29
        \<and> partial_ratio fz ''genericusbcable'' ''appleiphone'' = 40 \<longrightarrow>
        score_listing_against_key fz ''generic usb cable'' ''genericusbcable''
            ''apple iphone'' ''appleiphone'' = 1200 / 29
        \<and> score_listing_against_key fz ''generic usb cable'' ''genericusbcable''
            ''apple iphone'' ''appleiphone'' \<notin> \<int>)"
proof -
  have m: "score_listing_against_key fz list_norm list_compact kn kc
     = Max {partial_ratio fz list_norm kn, token_set_ratio fz list_norm kn,
            partial_ratio fz list_compact kc}"
    by (simp add: score_listing_against_key_def Let_def max.assoc max.commute max.left_commute)
  have b: "fuzz_bounded fz \<Longrightarrow>
        0 \<le> score_listing_against_key fz list_norm list_compact kn kc
        \<and> score_listing_against_key fz list_norm list_compact kn kc \<le> 100"
    by (simp add: score_listing_against_key_def Let_def fuzz_bounded_def max_def)
  have ni: "(1200 / 29 :: rat) \<notin> \<int>"
  proof
    assume "(1200 / 29 :: rat) \<in> \<int>"
    then obtain z :: int where z: "(1200 / 29 :: rat) = of_int z" by (auto elim: Ints_cases)
    then have "(1200 :: rat) = of_int (29 * z)" by simp
    then have "(of_int 1200 :: rat) = of_int (29 * z)" by simp
    then have "(1200 :: int) = 29 * z" by (simp only: of_int_eq_iff)
    then show False by presburger
  qed
  have e: "partial_ratio fz ''generic usb cable'' ''apple iphone'' = 75 / 2
        \<and> token_set_ratio fz ''generic usb cable'' ''apple iphone'' = 1200 / 29
        \<and> partial_ratio fz ''genericusbcable'' ''appleiphone'' = 40 \<Longrightarrow>
        score_listing_against_key fz ''generic usb cable'' ''genericusbcable''
            ''apple iphone'' ''appleiphone'' = 1200 / 29"
    by (simp add: score_listing_against_key_def Let_def)
  have e': "partial_ratio fz ''generic usb cable'' ''apple iphone'' = 75 / 2
        \<and> token_set_ratio fz ''generic usb cable'' ''apple iphone'' = 1200 / 29
        \<and> partial_ratio fz ''genericusbcable'' ''appleiphone'' = 40 \<Longrightarrow>
        score_listing_against_key fz ''generic usb cable'' ''genericusbcable''
            ''apple iphone'' ''appleiphone'' \<notin> \<int>"
  proof -
    assume h: "partial_ratio fz ''generic usb cable'' ''apple iphone'' = 75 / 2
        \<and> token_set_ratio fz ''generic usb cable'' ''apple iphone'' = 1200 / 29
        \<and> partial_ratio fz ''genericusbcable'' ''appleiphone'' = 40"
    show ?thesis unfolding e[OF h] by (rule ni)
  qed
  from m b e e' show ?thesis by blast
qed

theorem score_is_max_not_integer_witness:
  "partial_ratio usb_cable_fuzz ''generic usb cable'' ''apple iphone'' = 75 / 2
   \<and> token_set_ratio usb_cable_fuzz ''generic usb cable'' ''apple iphone'' = 1200 / 29
   \<and> partial_ratio usb_cable_fuzz ''genericusbcable'' ''appleiphone'' = 40
   \<and> score_listing_against_key usb_cable_fuzz ''generic usb cable'' ''genericusbcable''
        ''apple iphone'' ''appleiphone'' = 1200 / 29
   \<and> score_listing_against_key usb_cable_fuzz ''generic usb cable'' ''genericusbcable''
        ''apple iphone'' ''appleiphone'' \<notin> \<int>"
proof -
  have h: "partial_ratio usb_cable_fuzz ''generic usb cable'' ''apple iphone'' = 75 / 2
   \<and> token_set_ratio usb_cable_fuzz ''generic usb cable'' ''apple iphone'' = 1200 / 29
   \<and> partial_ratio usb_cable_fuzz ''genericusbcable'' ''appleiphone'' = 40"
    by (simp add: usb_cable_fuzz_def)
  from score_is_max_not_integer[of usb_cable_fuzz, THEN conjunct2, THEN conjunct2, THEN mp, OF h] h
  show ?thesis by blast
qed

section \<open>Properties of the matching loop\<close>



text \<open>
  C8. On a keyspace with rows, or where \<open>|\<close> returns the empty mask, the run returns
  three columns with one entry per listing; the score emitted for a listing is the best
  score found over its candidates and the key emitted is the normalized key of the
  first candidate with that score, or none when no candidate scored above 0; this also
  when the listing is unmatched, where the brand emitted is \<open>no brand\<close>. On an empty
  keyspace where \<open>|\<close> raises, a run with a listing returns the error and no result.
\<close>

theorem match_listings_outcome:
  "(build_brand_keyspace unidecode brands \<noteq> [] \<or> empty_mask_or pd = None \<longrightarrow>
      (\<exists>cols. match_listings pd unidecode fz threshold brands listing_col = Inr cols
         \<and> length (matched_brand cols) = length listing_col
         \<and> length (match_score cols) = length listing_col
         \<and> length (matched_key cols) = length listing_col
         \<and> (\<forall>i<length listing_col.
              match_score cols ! i
                = best_score fz (fst (prepare unidecode listing_col ! i)) (snd (prepare unidecode listing_col ! i))
                    (candidates_of (fst (prepare unidecode listing_col ! i)) (snd (prepare unidecode listing_col ! i))
                       (build_brand_keyspace unidecode brands))
              \<and> matched_key cols ! i
                = map_option key_norm
                    (best_candidate fz (fst (prepare unidecode listing_col ! i)) (snd (prepare unidecode listing_col ! i))
                       (candidates_of (fst (prepare unidecode listing_col ! i)) (snd (prepare unidecode listing_col ! i))
                          (build_brand_keyspace unidecode brands)))
              \<and> (\<not> is_matched pd fz threshold (build_brand_keyspace unidecode brands)
                       (prepare unidecode listing_col ! i)
                   \<longrightarrow> matched_brand cols ! i = Some ''no brand''))))
   \<and> (build_brand_keyspace unidecode brands = [] \<and> empty_mask_or pd = Some e \<and> listing_col \<noteq> [] \<longrightarrow>
        match_listings pd unidecode fz threshold brands listing_col = Inl e)"
proof -
  have 1: "build_brand_keyspace unidecode brands \<noteq> [] \<or> empty_mask_or pd = None \<Longrightarrow>
      (\<exists>cols. match_listings pd unidecode fz threshold brands listing_col = Inr cols
         \<and> length (matched_brand cols) = length listing_col
         \<and> length (match_score cols) = length listing_col
         \<and> length (matched_key cols) = length listing_col
         \<and> (\<forall>i<length listing_col.
              match_score cols ! i
                = best_score fz (fst (prepare unidecode listing_col ! i)) (snd (prepare unidecode listing_col ! i))
                    (candidates_of (fst (prepare unidecode listing_col ! i)) (snd (prepare unidecode listing_col ! i))
                       (build_brand_keyspace unidecode brands))
              \<and> matched_key cols ! i
                = map_option key_norm
                    (best_candidate fz (fst (prepare unidecode listing_col ! i)) (snd (prepare unidecode listing_col ! i))
                       (candidates_of (fst (prepare unidecode listing_col ! i)) (snd (prepare unidecode listing_col ! i))
                          (build_brand_keyspace unidecode brands)))
              \<and> (\<not> is_matched pd fz threshold (build_brand_keyspace unidecode brands)
                       (prepare unidecode listing_col ! i)
                   \<longrightarrow> matched_brand cols ! i = Some ''no brand'')))"
  proof -
    assume ok: "build_brand_keyspace unidecode brands \<noteq> [] \<or> empty_mask_or pd = None"
    show ?thesis
      unfolding match_listings_ok[OF ok]
      by (simp add: length_prepare best_brand_score best_match_key)
  qed
  have 2: "build_brand_keyspace unidecode brands = [] \<and> empty_mask_or pd = Some e \<and> listing_col \<noteq> [] \<Longrightarrow>
        match_listings pd unidecode fz threshold brands listing_col = Inl e"
    using match_listings_raises by blast
  from 1 2 show ?thesis by blast
qed

theorem match_listings_outcome_witness:
  "build_brand_keyspace ascii_only [\<lparr>brand = Some ''Acme'', key = None\<rparr>] = []
   \<and> empty_mask_or mask_or_raises = Some TypeError
   \<and> [Some ''Generic USB cable'', None] \<noteq> []
   \<and> match_listings mask_or_raises ascii_only overlap_fuzz 85 [\<lparr>brand = Some ''Acme'', key = None\<rparr>]
        [Some ''Generic USB cable'', None] = Inl TypeError
   \<and> build_brand_keyspace ascii_only brands_iphone \<noteq> []
   \<and> match_listings mask_or_raises ascii_only overlap_fuzz 85 brands_iphone
        [Some ''Apple iPhone 13'', None, Some ''Generic USB cable'']
       = Inr \<lparr>matched_brand = [Some ''Apple Store'', Some ''no brand'', Some ''no brand''],
              match_score = [100, 0, 58],
              matched_key = [Some ''apple iphone'', None, Some ''apple iphone'']\<rparr>
   \<and> (\<exists>cols. match_listings mask_or_raises ascii_only overlap_fuzz 85 brands_iphone
              [Some ''Apple iPhone 13'', None, Some ''Generic USB cable''] = Inr cols
         \<and> length (match_score cols) = 3
         \<and> match_score cols ! 2
             = best_score overlap_fuzz ''generic usb cable'' ''genericusbcable''
                 (candidates_of ''generic usb cable'' ''genericusbcable''
                    (build_brand_keyspace ascii_only brands_iphone))
         \<and> matched_brand cols ! 2 = Some ''no brand'')"
proof -
  let ?col = "[Some ''Apple iPhone 13'', None, Some ''Generic USB cable'']"
  have a: "build_brand_keyspace ascii_only [\<lparr>brand = Some ''Acme'', key = None\<rparr>] = []" by code_simp
  have b: "empty_mask_or mask_or_raises = Some TypeError" by (simp add: mask_or_raises_def)
  have c: "[Some ''Generic USB cable'', None] \<noteq> ([] :: string option list)" by simp
  from match_listings_outcome[of ascii_only "[\<lparr>brand = Some ''Acme'', key = None\<rparr>]" mask_or_raises
      overlap_fuzz 85 "[Some ''Generic USB cable'', None]" TypeError, THEN conjunct2, THEN mp]
    a b c
  have r: "match_listings mask_or_raises ascii_only overlap_fuzz 85 [\<lparr>brand = Some ''Acme'', key = None\<rparr>]
        [Some ''Generic USB cable'', None] = Inl TypeError"
    by blast
  have k: "build_brand_keyspace ascii_only brands_iphone \<noteq> []" by code_simp
  have e: "match_listings mask_or_raises ascii_only overlap_fuzz 85 brands_iphone ?col
       = Inr \<lparr>matched_brand = [Some ''Apple Store'', Some ''no brand'', Some ''no brand''],
              match_score = [100, 0, 58],
              matched_key = [Some ''apple iphone'', None, Some ''apple iphone'']\<rparr>"
    by code_simp
  have p: "prepare ascii_only ?col ! 2 = (''generic usb cable'', ''genericusbcable'')"
    by code_simp
  have n: "\<not> is_matched mask_or_raises overlap_fuzz 85 (build_brand_keyspace ascii_only brands_iphone)
         (prepare ascii_only ?col ! 2)"
    by code_simp
  from match_listings_outcome[of ascii_only brands_iphone mask_or_raises overlap_fuzz 85 ?col TypeError,
      THEN conjunct1, THEN mp, OF disjI1[OF k]]
  obtain cols where o: "match_listings mask_or_raises ascii_only overlap_fuzz 85 brands_iphone ?col = Inr cols"
    and l: "length (match_score cols) = length ?col"
    and i: "\<forall>i<length ?col.
              match_score cols ! i
                = best_score overlap_fuzz (fst (prepare ascii_only ?col ! i)) (snd (prepare ascii_only ?col ! i))
                    (candidates_of (fst (prepare ascii_only ?col ! i)) (snd (prepare ascii_only ?col ! i))
                       (build_brand_keyspace ascii_only brands_iphone))
              \<and> matched_key cols ! i
                = map_option key_norm
                    (best_candidate overlap_fuzz (fst (prepare ascii_only ?col ! i)) (snd (prepare ascii_only ?col ! i))
                       (candidates_of (fst (prepare ascii_only ?col ! i)) (snd (prepare ascii_only ?col ! i))
                          (build_brand_keyspace ascii_only brands_iphone)))
              \<and> (\<not> is_matched mask_or_raises overlap_fuzz 85 (build_brand_keyspace ascii_only brands_iphone)
                       (prepare ascii_only ?col ! i)
                   \<longrightarrow> matched_brand cols ! i = Some ''no brand'')"
    by blast
  have two: "(2::nat) < length ?col" by simp
  from i[THEN spec, THEN mp, OF two] n
  have s2: "match_score cols ! 2
             = best_score overlap_fuzz ''generic usb cable'' ''genericusbcable''
                 (candidates_of ''generic usb cable'' ''genericusbcable''
                    (build_brand_keyspace ascii_only brands_iphone))"
    and b2: "matched_brand cols ! 2 = Some ''no brand''"
    unfolding p by simp_all
  have l3: "length (match_score cols) = 3" using l by simp
  from a b c r k e o l3 s2 b2 show ?thesis by blast
qed

text \<open>
  C6. For thresholds \<open>t1 \<le> t2\<close>, a listing matched under \<open>t2\<close> is matched under
  \<open>t1\<close>; both runs return, with the same brand, score and key for it.
\<close>

theorem acceptance_monotone:
  "t1 \<le> t2 \<Longrightarrow> i < length listing_col \<Longrightarrow>
   is_matched pd fz t2 (build_brand_keyspace unidecode brands) (prepare unidecode listing_col ! i) \<Longrightarrow>
   is_matched pd fz t1 (build_brand_keyspace unidecode brands) (prepare unidecode listing_col ! i)
   \<and> (\<exists>c1 c2. match_listings pd unidecode fz t1 brands listing_col = Inr c1
        \<and> match_listings pd unidecode fz t2 brands listing_col = Inr c2
        \<and> matched_brand c1 ! i = matched_brand c2 ! i
        \<and> match_score c1 ! i = match_score c2 ! i
        \<and> matched_key c1 ! i = matched_key c2 ! i)"
proof -
  assume le: "t1 \<le> t2" and i: "i < length listing_col"
    and m2: "is_matched pd fz t2 (build_brand_keyspace unidecode brands) (prepare unidecode listing_col ! i)"
  have ok: "build_brand_keyspace unidecode brands \<noteq> [] \<or> empty_mask_or pd = None"
    using is_matched_nonempty[OF m2] .
  have "(of_int t1 :: rat) \<le> of_int t2" using le by simp
  then have m1: "is_matched pd fz t1 (build_brand_keyspace unidecode brands) (prepare unidecode listing_col ! i)"
    using m2 unfolding is_matched_ok[OF ok] accepted_def by auto
  show ?thesis
    unfolding match_listings_ok[OF ok] using i m1 m2 by (simp add: length_prepare)
qed

theorem acceptance_monotone_witness:
  "(85::int) \<le> 95 \<and> (0::nat) < length [Some ''Apple iPhone 13'', Some ''usb'']
   \<and> is_matched mask_or_raises overlap_fuzz 95 (build_brand_keyspace ascii_only brands_iphone)
       (prepare ascii_only [Some ''Apple iPhone 13'', Some ''usb''] ! 0)
   \<and> is_matched mask_or_raises overlap_fuzz 85 (build_brand_keyspace ascii_only brands_iphone)
       (prepare ascii_only [Some ''Apple iPhone 13'', Some ''usb''] ! 0)"
proof -
  have a: "(85::int) \<le> 95" by simp
  have b: "(0::nat) < length [Some ''Apple iPhone 13'', Some ''usb'']" by simp
  have c: "is_matched mask_or_raises overlap_fuzz 95 (build_brand_keyspace ascii_only brands_iphone)
       (prepare ascii_only [Some ''Apple iPhone 13'', Some ''usb''] ! 0)"
    by code_simp
  from acceptance_monotone[OF a b c] a b c show ?thesis by blast
qed

section \<open>Shortlist against full scan\<close>

lemma scan_best_none:
  assumes "best_score fz lnm lcp cands \<le> 0"
  shows "scan fz lnm lcp cands (None, 0, None) = (None, 0, None)"
proof -
  have "\<forall>r\<in>set cands. row_score fz lnm lcp r \<le> 0"
  proof
    fix r assume "r \<in> set cands"
    then have "row_score fz lnm lcp r \<le> best_score fz lnm lcp cands"
      unfolding best_score_def by (intro Max_ge) auto
    with assms show "row_score fz lnm lcp r \<le> 0" by linarith
  qed
  then show ?thesis by (intro scan_unchanged) simp
qed

lemma scan_best_some:
  assumes "best_score fz lnm lcp cands > 0"
  shows "\<exists>r. best_candidate fz lnm lcp cands = Some r
           \<and> r \<in> set cands
           \<and> row_score fz lnm lcp r = best_score fz lnm lcp cands
           \<and> scan fz lnm lcp cands (None, 0, None)
               = (Some (brand r), best_score fz lnm lcp cands, Some (key_norm r))"
proof -
  let ?M = "best_score fz lnm lcp cands"
  have "?M \<in> insert 0 (set (map (row_score fz lnm lcp) cands))"
    unfolding best_score_def by (intro Max_in) auto
  with assms have "\<exists>r\<in>set cands. row_score fz lnm lcp r > fst (snd (None :: string option option, 0 :: rat, None :: string option))"
    by auto
  from scan_first_best[OF this]
  obtain r where f: "find (\<lambda>x. row_score fz lnm lcp x = ?M) cands = Some r"
    and s: "scan fz lnm lcp cands (None, 0, None) = (Some (brand r), row_score fz lnm lcp r, Some (key_norm r))"
    by (auto simp: best_score_def)
  from f have rs: "row_score fz lnm lcp r = ?M" and rin: "r \<in> set cands"
    by (auto simp: find_Some_iff)
  have "best_candidate fz lnm lcp cands = Some r" using assms f by (simp add: best_candidate_def)
  with s rs rin show ?thesis by simp
qed

lemma find_filter:
  "find Q xs = Some r \<Longrightarrow> P r \<Longrightarrow> find Q (filter P xs) = Some r"
  by (induction xs) (auto split: if_splits)

lemma row_score_le:
  "fuzz_bounded fz \<Longrightarrow> row_score fz lnm lcp r \<le> 100"
  by (simp add: row_score_def score_listing_against_key_def Let_def fuzz_bounded_def)

lemma row_score_contained:
  assumes "fuzz_contained fz"
    and "key_norm r \<noteq> []" and "key_compact r \<noteq> []"
    and "sublist (key_norm r) lnm \<or> sublist (key_compact r) lcp"
  shows "row_score fz lnm lcp r \<ge> 100"
proof -
  have "partial_ratio fz lnm (key_norm r) = 100 \<or> partial_ratio fz lcp (key_compact r) = 100"
    using assms unfolding fuzz_contained_def by blast
  then show ?thesis
    by (auto simp: row_score_def score_listing_against_key_def Let_def)
qed

lemma best_score_100:
  assumes b: "fuzz_bounded fz" and r: "r \<in> set cands" and s: "row_score fz lnm lcp r \<ge> 100"
  shows "best_score fz lnm lcp cands = 100"
proof -
  have "row_score fz lnm lcp r = 100" using row_score_le[OF b, of lnm lcp r] s by simp
  then have "100 \<in> insert 0 (set (map (row_score fz lnm lcp) cands))" using r by force
  moreover have "\<forall>x\<in>insert 0 (set (map (row_score fz lnm lcp) cands)). x \<le> 100"
    using row_score_le[OF b] by auto
  ultimately show ?thesis unfolding best_score_def by (intro Max_eqI) auto
qed

lemma full_scan_score:
  "fst (snd (best_brand_full_scan fz lnm lcp keys)) = best_score fz lnm lcp keys"
  by (simp add: best_brand_full_scan_def scan_score best_score_def)

lemma shortlist_scores:
  assumes b: "fuzz_bounded fz" and c: "fuzz_contained fz"
    and ne: "shortlist lnm lcp (build_brand_keyspace ud brands) \<noteq> []"
  shows "best_score fz lnm lcp (shortlist lnm lcp (build_brand_keyspace ud brands)) = 100
         \<and> best_score fz lnm lcp (build_brand_keyspace ud brands) = 100"
proof -
  let ?keys = "build_brand_keyspace ud brands"
  from ne obtain r where r: "r \<in> set (shortlist lnm lcp ?keys)"
    by (cases "shortlist lnm lcp ?keys") auto
  then have rk: "r \<in> set ?keys"
    and sub: "sublist (key_norm r) lnm \<or> sublist (key_compact r) lcp"
    by (auto simp: shortlist_def)
  have k: "key_norm r \<noteq> []" "key_compact r \<noteq> []" using keyspace_compact[OF rk] by simp_all
  have s: "row_score fz lnm lcp r \<ge> 100" using row_score_contained[OF c k sub] .
  show ?thesis using best_score_100[OF b r s] best_score_100[OF b rk s] by simp
qed

lemma keyspace_pair_inj:
  assumes "r \<in> set (build_brand_keyspace ud brands)" and "r' \<in> set (build_brand_keyspace ud brands)"
    and "brand r = brand r'" and "key_norm r = key_norm r'"
  shows "r = r'"
proof -
  have "distinct (map pair_of (build_brand_keyspace ud brands))"
    unfolding build_eq by (rule dd_distinct)
  then have "inj_on pair_of (set (build_brand_keyspace ud brands))" by (simp add: distinct_map)
  moreover have "pair_of r = pair_of r'" using assms(3,4) by (simp add: pair_of_def)
  ultimately show ?thesis using assms(1,2) by (auto dest: inj_onD)
qed

lemma shortlist_eq_iff:
  assumes b: "fuzz_bounded fz" and c: "fuzz_contained fz"
  shows "best_match fz lnm lcp (build_brand_keyspace ud brands)
           = best_brand_full_scan fz lnm lcp (build_brand_keyspace ud brands)
         \<longleftrightarrow> shortlist lnm lcp (build_brand_keyspace ud brands) = []
             \<or> (\<exists>r\<in>set (shortlist lnm lcp (build_brand_keyspace ud brands)).
                   best_candidate fz lnm lcp (build_brand_keyspace ud brands) = Some r)"
proof (cases "shortlist lnm lcp (build_brand_keyspace ud brands) = []")
  case True
  then show ?thesis by (simp add: best_match_def best_brand_full_scan_def candidates_of_def)
next
  case False
  let ?keys = "build_brand_keyspace ud brands"
  let ?sub = "shortlist lnm lcp ?keys"
  have sc: "best_score fz lnm lcp ?sub = 100" "best_score fz lnm lcp ?keys = 100"
    using shortlist_scores[OF b c False] by simp_all
  have bm: "best_match fz lnm lcp ?keys = scan fz lnm lcp ?sub (None, 0, None)"
    using False by (simp add: best_match_def candidates_of_def)
  from scan_best_some[of fz lnm lcp ?sub] sc obtain r' where
    r': "best_candidate fz lnm lcp ?sub = Some r'" "r' \<in> set ?sub"
    and res: "scan fz lnm lcp ?sub (None, 0, None) = (Some (brand r'), 100, Some (key_norm r'))"
    by auto
  from scan_best_some[of fz lnm lcp ?keys] sc obtain r where
    r: "best_candidate fz lnm lcp ?keys = Some r" "r \<in> set ?keys"
    and full: "scan fz lnm lcp ?keys (None, 0, None) = (Some (brand r), 100, Some (key_norm r))"
    by auto
  have r'k: "r' \<in> set ?keys" using r'(2) by (auto simp: shortlist_def)
  show ?thesis
  proof
    assume "best_match fz lnm lcp ?keys = best_brand_full_scan fz lnm lcp ?keys"
    then have "brand r' = brand r" "key_norm r' = key_norm r"
      using bm res full by (simp_all add: best_brand_full_scan_def)
    then have "r' = r" using keyspace_pair_inj[OF r'k r(2)] by simp
    then show "?sub = [] \<or> (\<exists>r\<in>set ?sub. best_candidate fz lnm lcp ?keys = Some r)"
      using r'(2) r(1) by blast
  next
    assume "?sub = [] \<or> (\<exists>r\<in>set ?sub. best_candidate fz lnm lcp ?keys = Some r)"
    with False r(1) have rs: "r \<in> set ?sub" by auto
    have f: "find (\<lambda>x. row_score fz lnm lcp x = 100) ?keys = Some r"
      using r(1) sc(2) by (simp add: best_candidate_def)
    have p: "sublist (key_norm r) lnm \<or> sublist (key_compact r) lcp"
      using rs by (simp add: shortlist_def)
    have "find (\<lambda>x. row_score fz lnm lcp x = 100) ?sub = Some r"
      unfolding shortlist_def using find_filter[OF f, of "\<lambda>r. sublist (key_norm r) lnm \<or> sublist (key_compact r) lcp"] p
      by simp
    then have "best_candidate fz lnm lcp ?sub = Some r" using sc(1) by (simp add: best_candidate_def)
    with r'(1) have "r' = r" by simp
    then show "best_match fz lnm lcp ?keys = best_brand_full_scan fz lnm lcp ?keys"
      using bm res full by (simp add: best_brand_full_scan_def)
  qed
qed

lemma shortlist_same_score:
  assumes b: "fuzz_bounded fz" and c: "fuzz_contained fz"
  shows "fst (snd (best_match fz lnm lcp (build_brand_keyspace ud brands)))
           = fst (snd (best_brand_full_scan fz lnm lcp (build_brand_keyspace ud brands)))"
proof (cases "shortlist lnm lcp (build_brand_keyspace ud brands) = []")
  case True
  then show ?thesis by (simp add: best_match_def best_brand_full_scan_def candidates_of_def)
next
  case False
  then show ?thesis
    using shortlist_scores[OF b c False]
    by (simp add: best_brand_score full_scan_score candidates_of_def)
qed

lemma no_tie_in_shortlist:
  assumes b: "fuzz_bounded fz" and c: "fuzz_contained fz"
    and ne: "shortlist lnm lcp (build_brand_keyspace ud brands) \<noteq> []"
    and one: "\<forall>r\<in>set (build_brand_keyspace ud brands). \<forall>r'\<in>set (build_brand_keyspace ud brands).
        row_score fz lnm lcp r = best_score fz lnm lcp (build_brand_keyspace ud brands)
        \<and> row_score fz lnm lcp r' = best_score fz lnm lcp (build_brand_keyspace ud brands)
        \<longrightarrow> r = r'"
  shows "\<exists>r\<in>set (shortlist lnm lcp (build_brand_keyspace ud brands)).
           best_candidate fz lnm lcp (build_brand_keyspace ud brands) = Some r"
proof -
  let ?keys = "build_brand_keyspace ud brands"
  let ?sub = "shortlist lnm lcp ?keys"
  have sc: "best_score fz lnm lcp ?sub = 100" "best_score fz lnm lcp ?keys = 100"
    using shortlist_scores[OF b c ne] by simp_all
  from scan_best_some[of fz lnm lcp ?sub] sc obtain r' where
    r': "r' \<in> set ?sub" "row_score fz lnm lcp r' = 100" by auto
  from scan_best_some[of fz lnm lcp ?keys] sc obtain r where
    r: "best_candidate fz lnm lcp ?keys = Some r" "r \<in> set ?keys" "row_score fz lnm lcp r = 100"
    by auto
  have "r' \<in> set ?keys" using r'(1) by (auto simp: shortlist_def)
  then have "r = r'" using one r(2,3) r'(2) sc(2) by auto
  with r'(1) r(1) show ?thesis by blast
qed

text \<open>
  C1, as the code has it. For measures within 0..100 whose partial ratio is 100 on a
  contained non-empty key, and a built keyspace with rows: the best match over the
  shortlist is returned, its score is the score of the scan of the whole keyspace, and
  it is the result of that scan exactly when the shortlist is empty or holds the first
  keyspace row with the best score. It is that result in particular when only one
  keyspace row has the best score.
\<close>

theorem shortlist_equals_full_scan_iff:
  assumes "fuzz_bounded fz" and "fuzz_contained fz"
    and "build_brand_keyspace unidecode brands \<noteq> []"
  shows "\<exists>res. best_brand pd fz list_norm list_compact (build_brand_keyspace unidecode brands) = Inr res
     \<and> fst (snd res)
         = fst (snd (best_brand_full_scan fz list_norm list_compact (build_brand_keyspace unidecode brands)))
     \<and> (res = best_brand_full_scan fz list_norm list_compact (build_brand_keyspace unidecode brands)
          \<longleftrightarrow> shortlist list_norm list_compact (build_brand_keyspace unidecode brands) = []
              \<or> (\<exists>r\<in>set (shortlist list_norm list_compact (build_brand_keyspace unidecode brands)).
                    best_candidate fz list_norm list_compact (build_brand_keyspace unidecode brands) = Some r))
     \<and> ((\<forall>r\<in>set (build_brand_keyspace unidecode brands).
           \<forall>r'\<in>set (build_brand_keyspace unidecode brands).
             row_score fz list_norm list_compact r
               = best_score fz list_norm list_compact (build_brand_keyspace unidecode brands)
             \<and> row_score fz list_norm list_compact r'
               = best_score fz list_norm list_compact (build_brand_keyspace unidecode brands)
             \<longrightarrow> r = r')
          \<longrightarrow> res = best_brand_full_scan fz list_norm list_compact (build_brand_keyspace unidecode brands))"
proof -
  let ?keys = "build_brand_keyspace unidecode brands"
  let ?res = "best_match fz list_norm list_compact ?keys"
  have 0: "best_brand pd fz list_norm list_compact ?keys = Inr ?res"
    using assms(3) by (intro best_brand_ok) simp
  have 1: "fst (snd ?res) = fst (snd (best_brand_full_scan fz list_norm list_compact ?keys))"
    by (rule shortlist_same_score[OF assms(1,2)])
  note 2 = shortlist_eq_iff[OF assms(1,2), of list_norm list_compact unidecode brands]
  have 3: "(\<forall>r\<in>set ?keys. \<forall>r'\<in>set ?keys.
             row_score fz list_norm list_compact r = best_score fz list_norm list_compact ?keys
             \<and> row_score fz list_norm list_compact r' = best_score fz list_norm list_compact ?keys
             \<longrightarrow> r = r')
          \<Longrightarrow> ?res = best_brand_full_scan fz list_norm list_compact ?keys"
  proof -
    assume one: "\<forall>r\<in>set ?keys. \<forall>r'\<in>set ?keys.
             row_score fz list_norm list_compact r = best_score fz list_norm list_compact ?keys
             \<and> row_score fz list_norm list_compact r' = best_score fz list_norm list_compact ?keys
             \<longrightarrow> r = r'"
    show ?thesis
    proof (cases "shortlist list_norm list_compact ?keys = []")
      case True
      then show ?thesis using 2 by simp
    next
      case False
      from no_tie_in_shortlist[OF assms(1,2) False one] show ?thesis using 2 by simp
    qed
  qed
  from 0 1 2 3 show ?thesis by blast
qed

text \<open>
  C1 as stated fails where a key outside the shortlist ties with one inside it and
  comes first in the keyspace: the listing \<open>iphone\<close> is contained in the key
  \<open>apple iphone\<close> and contains the key \<open>iphone\<close>. Both score 100; the full scan keeps the
  first, the shortlist holds only the second.
\<close>

theorem shortlist_changes_brand_counterexample:
  "best_brand mask_or_returns overlap_fuzz ''iphone'' ''iphone'' (build_brand_keyspace ascii_only brands_iphone)
     = Inr (Some (Some ''iPhone''), 100, Some ''iphone'')
   \<and> best_brand_full_scan overlap_fuzz ''iphone'' ''iphone'' (build_brand_keyspace ascii_only brands_iphone)
     = (Some (Some ''Apple Store''), 100, Some ''apple iphone'')
   \<and> best_brand mask_or_returns overlap_fuzz ''iphone'' ''iphone'' (build_brand_keyspace ascii_only brands_iphone)
     \<noteq> Inr (best_brand_full_scan overlap_fuzz ''iphone'' ''iphone'' (build_brand_keyspace ascii_only brands_iphone))"
  by code_simp

theorem shortlist_equals_full_scan_iff_witness:
  "fuzz_bounded overlap_fuzz \<and> fuzz_contained overlap_fuzz
   \<and> build_brand_keyspace ascii_only brands_iphone \<noteq> []
   \<and> best_brand mask_or_returns overlap_fuzz ''apple iphone 13'' ''appleiphone13''
        (build_brand_keyspace ascii_only brands_iphone)
       = Inr (best_brand_full_scan overlap_fuzz ''apple iphone 13'' ''appleiphone13''
               (build_brand_keyspace ascii_only brands_iphone))"
proof -
  have k: "build_brand_keyspace ascii_only brands_iphone \<noteq> []" by code_simp
  have e: "best_brand mask_or_returns overlap_fuzz ''apple iphone 13'' ''appleiphone13''
        (build_brand_keyspace ascii_only brands_iphone)
       = Inr (best_brand_full_scan overlap_fuzz ''apple iphone 13'' ''appleiphone13''
               (build_brand_keyspace ascii_only brands_iphone))"
    by code_simp
  from shortlist_equals_full_scan_iff[OF overlap_fuzz_bounded overlap_fuzz_contained k,
      of mask_or_returns "''apple iphone 13''" "''appleiphone13''"]
  obtain res where r: "best_brand mask_or_returns overlap_fuzz ''apple iphone 13'' ''appleiphone13''
        (build_brand_keyspace ascii_only brands_iphone) = Inr res"
    by blast
  from r e k overlap_fuzz_bounded overlap_fuzz_contained show ?thesis by blast
qed

section \<open>Sorting and cutting the extract\<close>

lemma cell_at_projected:
  "c \<in> set keep \<Longrightarrow> cell_at (map (\<lambda>c. (c, cell_at r c)) keep) c = cell_at r c"
  by (induction keep) (auto simp: cell_at_def)

lemma number_or_text: "v \<noteq> NaN \<Longrightarrow> text_key v = None \<Longrightarrow> number_key v \<noteq> None"
  by (cases v) simp_all

lemma text_or_number: "v \<noteq> NaN \<Longrightarrow> number_key v = None \<Longrightarrow> text_key v \<noteq> None"
  by (cases v) simp_all

lemma mset_present_missing:
  "mset (filter (\<lambda>r. cell_at r col \<noteq> NaN) xs) + mset (filter (\<lambda>r. cell_at r col = NaN) xs) = mset xs"
  by (induction xs) simp_all

lemma sort_values_sortable:
  assumes "list_all (\<lambda>r. text_key (cell_at r col) = None) (rows df)
           \<or> list_all (\<lambda>r. number_key (cell_at r col) = None) (rows df)"
    and "count_list (columns df) col \<le> 1"
  shows "\<exists>df'. sort_values_desc col df = Inr df' \<and> mset (rows df') = mset (rows df)"
proof -
  let ?present = "filter (\<lambda>r. cell_at r col \<noteq> NaN) (rows df)"
  let ?missing = "filter (\<lambda>r. cell_at r col = NaN) (rows df)"
  let ?num = "df\<lparr>rows := rev (sort_key (\<lambda>r. number_key (cell_at r col)) (rev ?present)) @ ?missing\<rparr>"
  let ?txt = "df\<lparr>rows := rev (sort_key (\<lambda>r. text_key (cell_at r col)) (rev ?present)) @ ?missing\<rparr>"
  have u: "\<not> count_list (columns df) col > 1" using assms(2) by simp
  have n: "mset (rows ?num) = mset (rows df)" by (simp add: mset_present_missing)
  have t: "mset (rows ?txt) = mset (rows df)" by (simp add: mset_present_missing)
  show ?thesis
  proof (cases "list_all (\<lambda>r. number_key (cell_at r col) \<noteq> None) ?present")
    case True
    then have "sort_values_desc col df = Inr ?num" using u by (simp add: sort_values_desc_def Let_def)
    with n show ?thesis by blast
  next
    case False
    then obtain r where "r \<in> set (rows df)" "cell_at r col \<noteq> NaN"
        "number_key (cell_at r col) = None"
      by (auto simp: list_all_iff)
    then have "\<not> list_all (\<lambda>r. text_key (cell_at r col) = None) (rows df)"
      using number_or_text[of "cell_at r col"] by (auto simp: list_all_iff)
    with assms have "list_all (\<lambda>r. number_key (cell_at r col) = None) (rows df)" by simp
    then have "list_all (\<lambda>r. text_key (cell_at r col) \<noteq> None) ?present"
      using text_or_number by (auto simp: list_all_iff)
    with False have "sort_values_desc col df = Inr ?txt" using u by (simp add: sort_values_desc_def Let_def)
    with t show ?thesis by blast
  qed
qed

lemma match_score_kept:
  "''Match Score'' \<in> set (columns df) \<Longrightarrow> ''Match Score'' \<in> set (keep_cols uc pc (columns df))"
  by (simp add: keep_cols_def)

lemma match_score_once:
  "uc \<noteq> ''Match Score'' \<Longrightarrow> pc \<noteq> ''Match Score'' \<Longrightarrow>
   count_list (keep_cols uc pc cols) ''Match Score'' \<le> 1"
  by (simp add: keep_cols_def)

lemma extract_rows:
  assumes bc: "bc \<in> set (columns df)"
    and lab: "uc \<noteq> ''Match Score''" "pc \<noteq> ''Match Score''"
    and sc: "list_all (\<lambda>r. text_key (cell_at r ''Match Score'') = None) (no_brand_rows bc df)
             \<or> list_all (\<lambda>r. number_key (cell_at r ''Match Score'') = None) (no_brand_rows bc df)"
  shows "\<exists>um. unmatched_extract bc uc pc df = Inr um
              \<and> mset (rows um) = mset (map (review_row uc pc df) (no_brand_rows bc df))"
proof -
  let ?um1 = "df\<lparr>rows := filter (\<lambda>r. cell_at r bc = Text ''no brand'') (rows df)\<rparr>"
  let ?keep = "keep_cols uc pc (columns df)"
  let ?um2 = "if ?keep \<noteq> [] then select_columns ?keep ?um1 else ?um1"
  have unfold: "unmatched_extract bc uc pc df =
      (if ''Match Score'' \<in> set (columns ?um2) then sort_values_desc ''Match Score'' ?um2 else Inr ?um2)"
    using bc by (simp add: unmatched_extract_def Let_def)
  have rows2: "rows ?um2 = map (review_row uc pc df) (no_brand_rows bc df)"
  proof (cases "?keep = []")
    case True
    then have "review_row uc pc df = (\<lambda>r. r)" by (intro ext) (simp add: review_row_def)
    then show ?thesis using True by (simp add: no_brand_rows_def)
  next
    case False
    then have "review_row uc pc df = (\<lambda>r. map (\<lambda>c. (c, cell_at r c)) ?keep)"
      by (intro ext) (simp add: review_row_def)
    then show ?thesis using False by (simp add: select_columns_def no_brand_rows_def)
  qed
  show ?thesis
  proof (cases "''Match Score'' \<in> set (columns ?um2)")
    case False
    then have "unmatched_extract bc uc pc df = Inr ?um2" using unfold by simp
    with rows2 show ?thesis by simp
  next
    case True
    have ms: "''Match Score'' \<in> set ?keep"
    proof (cases "?keep = []")
      case True
      with \<open>''Match Score'' \<in> set (columns ?um2)\<close> have "''Match Score'' \<in> set (columns df)" by simp
      then show ?thesis by (rule match_score_kept)
    next
      case False
      with \<open>''Match Score'' \<in> set (columns ?um2)\<close> show ?thesis by (simp add: select_columns_def)
    qed
    then have ne: "?keep \<noteq> []" by auto
    then have cols2: "columns ?um2 = ?keep" by (simp add: select_columns_def)
    have once: "count_list (columns ?um2) ''Match Score'' \<le> 1"
      unfolding cols2 by (rule match_score_once[OF lab])
    have "cell_at (review_row uc pc df r) ''Match Score'' = cell_at r ''Match Score''" for r
      using ms ne by (simp add: review_row_def cell_at_projected)
    then have "list_all (\<lambda>r. text_key (cell_at r ''Match Score'') = None) (rows ?um2)
               \<or> list_all (\<lambda>r. number_key (cell_at r ''Match Score'') = None) (rows ?um2)"
      unfolding rows2 using sc by (simp add: list_all_iff)
    from sort_values_sortable[OF this once] obtain df' where
      "sort_values_desc ''Match Score'' ?um2 = Inr df'" and "mset (rows df') = mset (rows ?um2)"
      by blast
    then show ?thesis using unfold True rows2 by simp
  qed
qed

section \<open>The prepared table\<close>

lemma cell_at_coerce_row:
  "cell_at (coerce_row lib c r) k = (if k = c then coerce_cell lib (cell_at r k) else cell_at r k)"
proof (induction r)
  case Nil
  then show ?case by (simp add: cell_at_def coerce_row_def coerce_cell_def)
next
  case (Cons kv r)
  then show ?case by (cases kv) (auto simp: cell_at_def coerce_row_def)
qed

lemma cell_at_revenue_row:
  "k \<noteq> ''Revenue (USD)'' \<Longrightarrow> cell_at (revenue_row pc uc r) k = cell_at r k"
  by (simp add: cell_at_def revenue_row_def map_add_def split: option.splits)

lemma cell_at_prepare_row:
  assumes "k \<noteq> price_col args" "k \<noteq> units_col args" "k \<noteq> ''Revenue (USD)''"
  shows "cell_at (prepare_row lib args df r) k = cell_at r k"
  using assms by (simp add: prepare_row_def Let_def cell_at_coerce_row cell_at_revenue_row)

lemma rows_coerce_column:
  "rows (coerce_column lib c df) = map (if c \<in> set (columns df) then coerce_row lib c else (\<lambda>r. r)) (rows df)"
  by (simp add: coerce_column_def)

lemma columns_coerce_column: "columns (coerce_column lib c df) = columns df"
  by (simp add: coerce_column_def)

lemma rows_prepare_frame:
  "rows (prepare_frame lib args df) = map (prepare_row lib args df) (rows df)"
  by (simp add: prepare_frame_def add_revenue_def rows_coerce_column columns_coerce_column
      prepare_row_def Let_def comp_def)

lemma columns_prepare_frame:
  "columns (prepare_frame lib args df) =
     (if ''Revenue (USD)'' \<notin> set (columns df) \<and> price_col args \<in> set (columns df)
         \<and> units_col args \<in> set (columns df)
      then columns df @ [''Revenue (USD)''] else columns df)"
  by (simp add: prepare_frame_def add_revenue_def columns_coerce_column)

lemma no_brand_rows_prepared:
  assumes "bc \<noteq> price_col args" "bc \<noteq> units_col args" "bc \<noteq> ''Revenue (USD)''"
  shows "no_brand_rows bc (prepare_frame lib args df)
           = map (prepare_row lib args df) (no_brand_rows bc df)"
  unfolding no_brand_rows_def rows_prepare_frame filter_map comp_def
  by (simp add: cell_at_prepare_row[OF assms])

section \<open>The unmatched-for-review extract\<close>

lemma aggregate_summaries:
  assumes cols: "brand_col args \<in> set (columns df)" "units_col args \<in> set (columns df)"
      "price_col args \<in> set (columns df)"
    and cnt: "''Listing'' \<in> set (columns df) \<or> ''Brand (Matched)'' \<in> set (columns df)"
    and summ: "summaries_succeed lib args df"
  shows "\<exists>b s. aggregate lib args df =
           (case unmatched_extract (brand_col args) (units_col args) (price_col args)
                   (prepare_frame lib args df) of
              Inl e \<Rightarrow> Inl e
            | Inr um \<Rightarrow> Inr \<lparr>brand_summary = b, shop_brand = s, unmatched = um\<rparr>)"
proof -
  let ?P = "prepare_frame lib args df"
  let ?hl = "''Listing'' \<in> set (columns ?P)"
  let ?bn = "[(''listings'', if ?hl then ''Listing'' else ''Brand (Matched)'', ''count''),
              (''units'', units_col args, ''sum''),
              (''revenue'', ''Revenue (USD)'', ''sum''),
              (''avg_price'', price_col args, ''mean'')]"
  let ?sn = "[(''listings'', if ?hl then ''Listing'' else brand_col args, ''count''),
              (''units'', units_col args, ''sum''),
              (''revenue'', ''Revenue (USD)'', ''sum'')]"
  have sub: "set (columns df) \<subseteq> set (columns ?P)" by (auto simp: columns_prepare_frame)
  have rev: "''Revenue (USD)'' \<in> set (columns ?P)"
    using cols by (auto simp: columns_prepare_frame)
  have bm: "\<not> ?hl \<Longrightarrow> ''Brand (Matched)'' \<in> set (columns ?P)"
    using cnt sub by auto
  have b_ok: "list_all (\<lambda>c. c \<in> set (columns ?P)) ([brand_col args] @ map (\<lambda>a. fst (snd a)) ?bn)"
    using cols sub rev bm by auto
  from summ obtain b where b: "summarise lib [brand_col args] ?bn ?P = Inr b"
    unfolding summaries_succeed_def by blast
  have gb: "group_summary lib [brand_col args] ?bn ?P = Inr b"
    unfolding group_summary_def using b_ok b by (simp only: if_True)
  show ?thesis
  proof (cases "shop_col args \<in> set (columns ?P)")
    case False
    show ?thesis
      unfolding aggregate_def Let_def gb using False
      by (auto split: sum.splits)
  next
    case True
    have s_ok: "list_all (\<lambda>c. c \<in> set (columns ?P))
                  ([shop_col args, brand_col args] @ map (\<lambda>a. fst (snd a)) ?sn)"
      using cols sub rev True by auto
    from summ True obtain s where s: "summarise lib [shop_col args, brand_col args] ?sn ?P = Inr s"
      unfolding summaries_succeed_def by blast
    have gs: "group_summary lib [shop_col args, brand_col args] ?sn ?P = Inr s"
      unfolding group_summary_def using s_ok s by (simp only: if_True)
    show ?thesis
      unfolding aggregate_def Let_def gb gs using True
      by (auto split: sum.splits)
  qed
qed

lemma match_score_prepared:
  assumes "units_col args \<noteq> ''Match Score''" "price_col args \<noteq> ''Match Score''"
  shows "cell_at (prepare_row lib args df r) ''Match Score'' = cell_at r ''Match Score''"
  using assms by (intro cell_at_prepare_row) auto

lemma no_brand_emitted:
  "best_brand pd fz (fst l) (snd l) keys = Inr (Some (Some ''no brand''), sc, k) \<Longrightarrow>
   \<exists>acc'. match_step pd fz t keys acc l = Inr acc'
         \<and> matched_brand acc' = matched_brand acc @ [Some ''no brand'']"
  by (simp add: match_step_def)

text \<open>
  C10. When the table has the brand, units and price columns and a column to count,
  the two summaries are produced, neither the units nor the price column is the match
  score, and the match score column holds numbers and missing values only, or texts and
  missing values only: the run writes the extract, and the extract holds exactly the
  rows of the prepared table whose brand cell is the text \<open>no brand\<close>, each cut to the
  kept columns. Where the brand column is not one of the coerced columns, these are the
  prepared rows of exactly the rows of the input whose brand cell is that text. The
  matcher writes that same text for a listing whose best brand is named \<open>no brand\<close>,
  accepted or not, so the rows of such a brand are in the extract.
\<close>

theorem unmatched_extract_no_brand_rows:
  assumes "brand_col args \<in> set (columns df)" and "units_col args \<in> set (columns df)"
    and "price_col args \<in> set (columns df)"
    and "''Listing'' \<in> set (columns df) \<or> ''Brand (Matched)'' \<in> set (columns df)"
    and "summaries_succeed lib args df"
    and "units_col args \<noteq> ''Match Score''" and "price_col args \<noteq> ''Match Score''"
    and "list_all (\<lambda>r. text_key (cell_at r ''Match Score'') = None) (rows df)
         \<or> list_all (\<lambda>r. number_key (cell_at r ''Match Score'') = None) (rows df)"
  shows "(\<exists>out. aggregate lib args df = Inr out
            \<and> mset (rows (unmatched out))
                = mset (map (review_row (units_col args) (price_col args) (prepare_frame lib args df))
                         (no_brand_rows (brand_col args) (prepare_frame lib args df)))
            \<and> (brand_col args \<noteq> price_col args \<and> brand_col args \<noteq> units_col args
                 \<and> brand_col args \<noteq> ''Revenue (USD)'' \<longrightarrow>
                mset (rows (unmatched out))
                  = mset (map (\<lambda>r. review_row (units_col args) (price_col args) (prepare_frame lib args df)
                                     (prepare_row lib args df r))
                           (no_brand_rows (brand_col args) df))))
         \<and> (best_brand pd fz (fst l) (snd l) brand_keys = Inr (Some (Some ''no brand''), sc, keyn) \<longrightarrow>
              (\<exists>acc'. match_step pd fz threshold brand_keys acc l = Inr acc'
                  \<and> matched_brand acc' = matched_brand acc @ [Some ''no brand'']))"
proof -
  let ?P = "prepare_frame lib args df"
  have bc: "brand_col args \<in> set (columns ?P)" using assms(1) by (auto simp: columns_prepare_frame)
  have ms: "cell_at (prepare_row lib args df r) ''Match Score'' = cell_at r ''Match Score''" for r
    by (rule match_score_prepared[OF assms(6,7)])
  have "list_all (\<lambda>r. text_key (cell_at r ''Match Score'') = None) (rows ?P)
        \<or> list_all (\<lambda>r. number_key (cell_at r ''Match Score'') = None) (rows ?P)"
    using assms(8) unfolding rows_prepare_frame by (simp add: list_all_iff ms)
  then have sortable:
    "list_all (\<lambda>r. text_key (cell_at r ''Match Score'') = None) (no_brand_rows (brand_col args) ?P)
     \<or> list_all (\<lambda>r. number_key (cell_at r ''Match Score'') = None) (no_brand_rows (brand_col args) ?P)"
    by (auto simp: list_all_iff no_brand_rows_def)
  from extract_rows[OF bc assms(6,7) sortable] obtain um where
    um: "unmatched_extract (brand_col args) (units_col args) (price_col args) ?P = Inr um"
    and rows_um: "mset (rows um) = mset (map (review_row (units_col args) (price_col args) ?P)
                         (no_brand_rows (brand_col args) ?P))"
    by blast
  from aggregate_summaries[OF assms(1,2,3,4,5)] um obtain b s where
    out: "aggregate lib args df = Inr \<lparr>brand_summary = b, shop_brand = s, unmatched = um\<rparr>"
    by auto
  have orig: "brand_col args \<noteq> price_col args \<and> brand_col args \<noteq> units_col args
                 \<and> brand_col args \<noteq> ''Revenue (USD)'' \<Longrightarrow>
      mset (rows um) = mset (map (\<lambda>r. review_row (units_col args) (price_col args) ?P
                                     (prepare_row lib args df r))
                           (no_brand_rows (brand_col args) df))"
  proof -
    assume "brand_col args \<noteq> price_col args \<and> brand_col args \<noteq> units_col args
                 \<and> brand_col args \<noteq> ''Revenue (USD)''"
    then have "no_brand_rows (brand_col args) ?P
                 = map (prepare_row lib args df) (no_brand_rows (brand_col args) df)"
      by (intro no_brand_rows_prepared) simp_all
    then show ?thesis using rows_um by (simp add: comp_def)
  qed
  have 1: "\<exists>out. aggregate lib args df = Inr out
            \<and> mset (rows (unmatched out))
                = mset (map (review_row (units_col args) (price_col args) ?P)
                         (no_brand_rows (brand_col args) ?P))
            \<and> (brand_col args \<noteq> price_col args \<and> brand_col args \<noteq> units_col args
                 \<and> brand_col args \<noteq> ''Revenue (USD)'' \<longrightarrow>
                mset (rows (unmatched out))
                  = mset (map (\<lambda>r. review_row (units_col args) (price_col args) ?P
                                     (prepare_row lib args df r))
                           (no_brand_rows (brand_col args) df)))"
    using out rows_um orig by simp
  from 1 no_brand_emitted show ?thesis by blast
qed

lemma header_agg_succeeds: "summaries_succeed header_agg args df"
  by (simp add: summaries_succeed_def header_agg_def)

theorem unmatched_extract_no_brand_rows_witness:
  "brand_col default_args \<in> set (columns matched_table)
   \<and> units_col default_args \<in> set (columns matched_table)
   \<and> price_col default_args \<in> set (columns matched_table)
   \<and> summaries_succeed header_agg default_args matched_table
   \<and> list_all (\<lambda>r. text_key (cell_at r ''Match Score'') = None) (rows matched_table)
   \<and> map_sum id unmatched (aggregate header_agg default_args matched_table)
       = Inr \<lparr>columns = [''Shop'', ''Listing'', ''Units Sold (Numeric)'', ''Price (USD)'', ''Match Score''],
              rows = [[(''Shop'', Text ''s3''), (''Listing'', Text ''No Brand cola''),
                       (''Units Sold (Numeric)'', Number 4), (''Price (USD)'', Number 2),
                       (''Match Score'', Number 100)],
                      [(''Shop'', Text ''s1''), (''Listing'', Text ''usb cable''),
                       (''Units Sold (Numeric)'', Number 10), (''Price (USD)'', Number (3 / 2)),
                       (''Match Score'', Number 50)],
                      [(''Shop'', Text ''s4''), (''Listing'', NaN),
                       (''Units Sold (Numeric)'', NaN), (''Price (USD)'', NaN),
                       (''Match Score'', Number 0)]]\<rparr>
   \<and> (\<exists>out. aggregate header_agg default_args matched_table = Inr out
          \<and> mset (rows (unmatched out))
              = mset (map (review_row (units_col default_args) (price_col default_args)
                             (prepare_frame header_agg default_args matched_table))
                       (no_brand_rows (brand_col default_args)
                             (prepare_frame header_agg default_args matched_table))))
   \<and> match_listings mask_or_returns ascii_only overlap_fuzz 85 brands_no_brand
        [Some ''No Brand cola 1L'', Some ''usb cable'']
       = Inr \<lparr>matched_brand = [Some ''no brand'', Some ''no brand''], match_score = [100, 37],
              matched_key = [Some ''no brand'', Some ''no brand'']\<rparr>"
proof -
  have a: "brand_col default_args \<in> set (columns matched_table)" by code_simp
  have b: "units_col default_args \<in> set (columns matched_table)" by code_simp
  have c: "price_col default_args \<in> set (columns matched_table)" by code_simp
  have d: "''Listing'' \<in> set (columns matched_table) \<or> ''Brand (Matched)'' \<in> set (columns matched_table)"
    by code_simp
  have e: "summaries_succeed header_agg default_args matched_table" by (rule header_agg_succeeds)
  have f: "units_col default_args \<noteq> ''Match Score''" by code_simp
  have g: "price_col default_args \<noteq> ''Match Score''" by code_simp
  have h: "list_all (\<lambda>r. text_key (cell_at r ''Match Score'') = None) (rows matched_table)"
    by code_simp
  have v: "map_sum id unmatched (aggregate header_agg default_args matched_table)
       = Inr \<lparr>columns = [''Shop'', ''Listing'', ''Units Sold (Numeric)'', ''Price (USD)'', ''Match Score''],
              rows = [[(''Shop'', Text ''s3''), (''Listing'', Text ''No Brand cola''),
                       (''Units Sold (Numeric)'', Number 4), (''Price (USD)'', Number 2),
                       (''Match Score'', Number 100)],
                      [(''Shop'', Text ''s1''), (''Listing'', Text ''usb cable''),
                       (''Units Sold (Numeric)'', Number 10), (''Price (USD)'', Number (3 / 2)),
                       (''Match Score'', Number 50)],
                      [(''Shop'', Text ''s4''), (''Listing'', NaN),
                       (''Units Sold (Numeric)'', NaN), (''Price (USD)'', NaN),
                       (''Match Score'', Number 0)]]\<rparr>"
    by code_simp
  have m: "match_listings mask_or_returns ascii_only overlap_fuzz 85 brands_no_brand
        [Some ''No Brand cola 1L'', Some ''usb cable'']
       = Inr \<lparr>matched_brand = [Some ''no brand'', Some ''no brand''], match_score = [100, 37],
              matched_key = [Some ''no brand'', Some ''no brand'']\<rparr>"
    by code_simp
  from unmatched_extract_no_brand_rows[OF a b c d e f g disjI1[OF h], THEN conjunct1]
  obtain out where o: "aggregate header_agg default_args matched_table = Inr out"
    and r: "mset (rows (unmatched out))
              = mset (map (review_row (units_col default_args) (price_col default_args)
                             (prepare_frame header_agg default_args matched_table))
                       (no_brand_rows (brand_col default_args)
                             (prepare_frame header_agg default_args matched_table)))"
    by blast
  from a b c e h v m o r show ?thesis by blast
qed

end
